theory Spec2Isabelle
  imports Complex_Main "HOL-Library.AList" "HOL-Library.List_Lexorder" "HOL-Library.Sublist"
begin

unbundle bit_operations_syntax

section \<open>Python values: strings, exceptions\<close>

text \<open>A Python \<open>str\<close> is a sequence of Unicode code points; \<open>ord\<close> reads one as an
  integer. ASCII literals of the source are written \<open>py ''...''\<close>.\<close>

type_synonym pystr = "nat list"

definition py :: "string \<Rightarrow> pystr" where
  "py s = map of_char s"

text \<open>The exception classes of \<open>utils/exceptions.py\<close> and the built-in ones the code
  can meet. Only subclasses of \<open>Exception\<close> are modelled (an \<open>except Exception\<close> clause
  catches every value of this type).\<close>

datatype exc = Exception | TypeError | IndexError | KeyError | ArithmeticError
  | ZeroDivisionError | OverflowError
  | ValueError | UnicodeError | UnicodeEncodeError
  | WxReadError | ConfigError | NetworkError | AuthError | PushError
  | ValidationError | RateLimitError | CircuitBreakerError

text \<open>The class of an exception followed by its base classes.\<close>

fun bases :: "exc \<Rightarrow> exc list" where
  "bases Exception = [Exception]"
| "bases TypeError = [TypeError, Exception]"
| "bases IndexError = [IndexError, Exception]"
| "bases KeyError = [KeyError, Exception]"
| "bases ArithmeticError = [ArithmeticError, Exception]"
| "bases ZeroDivisionError = [ZeroDivisionError, ArithmeticError, Exception]"
| "bases OverflowError = [OverflowError, ArithmeticError, Exception]"
| "bases ValueError = [ValueError, Exception]"
| "bases UnicodeError = [UnicodeError, ValueError, Exception]"
| "bases UnicodeEncodeError = [UnicodeEncodeError, UnicodeError, ValueError, Exception]"
| "bases WxReadError = [WxReadError, Exception]"
| "bases ConfigError = [ConfigError, WxReadError, Exception]"
| "bases NetworkError = [NetworkError, WxReadError, Exception]"
| "bases AuthError = [AuthError, WxReadError, Exception]"
| "bases PushError = [PushError, WxReadError, Exception]"
| "bases ValidationError = [ValidationError, WxReadError, Exception]"
| "bases RateLimitError = [RateLimitError, WxReadError, Exception]"
| "bases CircuitBreakerError = [CircuitBreakerError, WxReadError, Exception]"

definition isinstance :: "exc \<Rightarrow> exc \<Rightarrow> bool" where
  "isinstance e cls = (cls \<in> set (bases e))"

text \<open>An \<open>except (A, B, ...)\<close> clause catches an exception that is an instance of one of
  the classes.\<close>

definition caught_by :: "exc \<Rightarrow> exc list \<Rightarrow> bool" where
  "caught_by e classes = list_ex (isinstance e) classes"

text \<open>\<open>s[i]\<close> on a string: negative indices count from the end, anything else out of
  range raises \<open>IndexError\<close>.\<close>

definition getitem :: "pystr \<Rightarrow> int \<Rightarrow> exc + nat" where
  "getitem s i =
     (let n = int (length s); j = (if i < 0 then n + i else i)
      in if 0 \<le> j \<and> j < n then Inr (s ! nat j) else Inl IndexError)"

section \<open>\<open>core/crypto.py\<close>: the custom hash\<close>

text \<open>One pass through the body of the \<open>while _19094e > 0\<close> loop of
  \<open>calculate_hash\<close>; \<open>h1\<close> is \<open>_7032f5\<close>, \<open>h2\<close> is \<open>_cc1055\<close>, \<open>i\<close> is
  \<open>_19094e\<close>. In Python \<open><<\<close> binds tighter than \<open>^\<close>, which binds tighter than
  \<open>&\<close>.\<close>

definition calculate_hash_body :: "pystr \<Rightarrow> int \<Rightarrow> int \<Rightarrow> int \<Rightarrow> exc + (int \<times> int)" where
  "calculate_hash_body s h1 h2 i =
     (case getitem s i of
        Inl e \<Rightarrow> Inl e
      | Inr char_code \<Rightarrow>
          let shift_amount = (int (length s) - i) mod 30;
              h1' = 0x7fffffff AND (h1 XOR push_bit (nat shift_amount) (int char_code))
          in if i > 0 then
               (case getitem s (i - 1) of
                  Inl e \<Rightarrow> Inl e
                | Inr char_code_prev \<Rightarrow>
                    let shift_amount_prev = i mod 30;
                        h2' = 0x7fffffff AND
                              (h2 XOR push_bit (nat shift_amount_prev) (int char_code_prev))
                    in Inr (h1', h2'))
             else Inr (h1', h2))"

text \<open>The loop itself: the body, then \<open>_19094e -= 2\<close>.\<close>

function calculate_hash_loop :: "pystr \<Rightarrow> int \<Rightarrow> int \<Rightarrow> int \<Rightarrow> exc + (int \<times> int)" where
  "calculate_hash_loop s h1 h2 i =
     (if i > 0 then
        (case calculate_hash_body s h1 h2 i of
           Inl e \<Rightarrow> Inl e
         | Inr (h1', h2') \<Rightarrow> calculate_hash_loop s h1' h2' (i - 2))
      else Inr (h1, h2))"
  by pat_completeness auto
termination
  by (relation "measure (\<lambda>(s, h1, h2, i). nat i)") auto

declare calculate_hash_loop.simps [simp del]

text \<open>Python's \<open>hex\<close> on an integer, and \<open>str.lower\<close> on the ASCII range (the only
  range \<open>hex\<close> produces).\<close>

definition hex_digit :: "nat \<Rightarrow> nat" where
  "hex_digit d = (if d < 10 then 48 + d else 87 + d)"

function hex_digits :: "int \<Rightarrow> pystr" where
  "hex_digits n =
     (if n < 16 then [hex_digit (nat n)]
      else hex_digits (n div 16) @ [hex_digit (nat (n mod 16))])"
  by pat_completeness auto
termination
  by (relation "measure nat") auto

declare hex_digits.simps [simp del]

definition hex :: "int \<Rightarrow> pystr" where
  "hex n = (if n < 0 then py ''-0x'' @ hex_digits (- n) else py ''0x'' @ hex_digits n)"

definition lower :: "pystr \<Rightarrow> pystr" where
  "lower s = map (\<lambda>c. if 65 \<le> c \<and> c \<le> 90 then c + 32 else c) s"

definition calculate_hash :: "pystr \<Rightarrow> exc + pystr" where
  "calculate_hash input_string =
     (let h0 = 0x15051505;
          length = int (List.length input_string)
      in case calculate_hash_loop input_string h0 h0 (length - 1) of
           Inl e \<Rightarrow> Inl e
         | Inr (h1, h2) \<Rightarrow> Inr (lower (drop 2 (hex (h1 + h2)))))"

subsection \<open>The hash as the specification words it\<close>

text \<open>The indices \<open>i\<close>, \<open>i - 2\<close>, ... visited going down to 1.\<close>

function spec_indices :: "int \<Rightarrow> int list" where
  "spec_indices i = (if 1 \<le> i then i # spec_indices (i - 2) else [])"
  by pat_completeness auto
termination
  by (relation "measure nat") auto

declare spec_indices.simps [simp del]

definition code :: "pystr \<Rightarrow> int \<Rightarrow> int" where
  "code s i = int (s ! nat i)"

text \<open>One step of the specification: \<open>h1 = (h1 XOR (code(i) << ((L-i) mod 30))) & 0x7fffffff\<close>
  and, if \<open>i > 0\<close>, \<open>h2 = (h2 XOR (code(i-1) << (i mod 30))) & 0x7fffffff\<close>.\<close>

definition spec_step :: "pystr \<Rightarrow> int \<Rightarrow> int \<times> int \<Rightarrow> int \<times> int" where
  "spec_step s i acc =
     (let L = int (length s);
          h1 = (fst acc XOR push_bit (nat ((L - i) mod 30)) (code s i)) AND 0x7fffffff;
          h2 = (if i > 0
                then (snd acc XOR push_bit (nat (i mod 30)) (code s (i - 1))) AND 0x7fffffff
                else snd acc)
      in (h1, h2))"

definition spec_accumulators :: "pystr \<Rightarrow> int \<times> int" where
  "spec_accumulators s =
     fold (spec_step s) (spec_indices (int (length s) - 1)) (0x15051505, 0x15051505)"

text \<open>Lowercase hexadecimal digits of the sum, with no prefix and no padding.\<close>

definition spec_hash :: "pystr \<Rightarrow> pystr" where
  "spec_hash s = hex_digits (fst (spec_accumulators s) + snd (spec_accumulators s))"

section \<open>The world outside the program\<close>

text \<open>What the program does to its surroundings is recorded as a trace of events, in
  the order they happen. The surroundings answer through oracles that the program cannot
  influence: \<open>net\<close> gives the outcome of the HTTP request made as the \<open>n\<close>-th event,
  \<open>clock\<close> the wall clock (in seconds) after \<open>n\<close> events, \<open>rand\<close> the \<open>n\<close>-th
  draw of the random generator. Floating-point numbers are modelled as rationals.\<close>

datatype endpoint = ReadUrl | RenewUrl | FixSynckeyUrl

datatype event = Request endpoint | Slept rat | Notified | Invoked

text \<open>JSON values as \<open>json.loads\<close> returns them; an object keeps its keys in order.\<close>

datatype json = JNull | JBool bool | JInt int | JFloat rat | JStr pystr
  | JList "json list" | JDict "(pystr \<times> json) list"

datatype parsed = Malformed | Parsed json

record response =
  status_code :: int
  set_cookie :: "pystr option"
  body :: parsed

datatype http_outcome = Timeout | ConnectionError | OtherRequestException
  | Responded response

text \<open>Values stored in a request payload: the template and the computed fields hold
  strings and integers only.\<close>

datatype pyval = PStr pystr | PInt int

type_synonym pydict = "(pystr \<times> pyval) list"

record world =
  net :: "nat \<Rightarrow> http_outcome"
  clock :: "nat \<Rightarrow> rat"
  rand :: "nat \<Rightarrow> nat"
  trace :: "event list"
  draws :: nat
  heap :: "pydict list"

definition now :: "world \<Rightarrow> rat" where
  "now w = clock w (length (trace w))"

definition session_post :: "endpoint \<Rightarrow> world \<Rightarrow> http_outcome \<times> world" where
  "session_post url w = (net w (length (trace w)), w\<lparr>trace := trace w @ [Request url]\<rparr>)"

text \<open>\<open>int(x)\<close> on a float truncates towards zero.\<close>

definition int_of_float :: "rat \<Rightarrow> int" where
  "int_of_float x = (if 0 \<le> x then \<lfloor>x\<rfloor> else \<lceil>x\<rceil>)"

text \<open>\<open>time.sleep\<close>: a negative duration raises \<open>ValueError\<close>, and one that does
  not fit the interpreter's signed 64-bit count of nanoseconds raises \<open>OverflowError\<close>;
  otherwise the thread sleeps, which \<open>sleep\<close> records in the trace.\<close>

definition sleep :: "rat \<Rightarrow> world \<Rightarrow> world" where
  "sleep seconds w = w\<lparr>trace := trace w @ [Slept seconds]\<rparr>"

definition time_sleep :: "rat \<Rightarrow> world \<Rightarrow> exc option \<times> world" where
  "time_sleep seconds w =
     (if seconds < 0 then (Some ValueError, w)
      else if 2 ^ 63 \<le> seconds * 10 ^ 9 then (Some OverflowError, w)
      else (None, sleep seconds w))"

text \<open>\<open>x ** n\<close> for a float \<open>x\<close> and an integer \<open>n \<ge> 0\<close>: a result beyond the range
  of a double raises \<open>OverflowError\<close>. (Rounding is not modelled.)\<close>

definition float_pow :: "rat \<Rightarrow> nat \<Rightarrow> exc + rat" where
  "float_pow x n = (if 2 ^ 1024 \<le> \<bar>x ^ n\<bar> then Inl OverflowError else Inr (x ^ n))"

definition random_draw :: "world \<Rightarrow> nat \<times> world" where
  "random_draw w = (rand w (draws w), w\<lparr>draws := Suc (draws w)\<rparr>)"

text \<open>\<open>random.random()\<close>: a value in \<open>[0, 1)\<close>.\<close>

definition random_random :: "world \<Rightarrow> rat \<times> world" where
  "random_random w =
     (let (r, w') = random_draw w in (of_nat (r mod 2 ^ 53) / 2 ^ 53, w'))"

text \<open>\<open>random.randint(a, b)\<close> for \<open>a \<le> b\<close>: a value in \<open>[a, b]\<close>.\<close>

definition randint :: "int \<Rightarrow> int \<Rightarrow> world \<Rightarrow> int \<times> world" where
  "randint a b w =
     (let (r, w') = random_draw w in (a + int r mod (b - a + 1), w'))"

text \<open>\<open>random.choice\<close> on a non-empty list.\<close>

definition random_choice :: "'a list \<Rightarrow> world \<Rightarrow> (exc + 'a) \<times> world" where
  "random_choice xs w =
     (if xs = [] then (Inl IndexError, w)
      else let (r, w') = random_draw w in (Inr (xs ! (r mod length xs)), w'))"

text \<open>A sample world for concrete runs: every request times out.\<close>

definition world0 :: world where
  "world0 = \<lparr>net = (\<lambda>n. Timeout), clock = (\<lambda>n. of_nat n), rand = (\<lambda>n. n), trace = [],
     draws = 0, heap = []\<rparr>"

text \<open>The same world with the clock at 100 seconds.\<close>

definition world_late :: world where
  "world_late = world0\<lparr>clock := (\<lambda>n. 100)\<rparr>"

section \<open>\<open>utils/retry.py\<close>\<close>

subsection \<open>\<open>retry_with_backoff\<close>\<close>

text \<open>What happens between a failed attempt and the next one: the delay is computed
  (the power may overflow), the optional callback \<open>on_retry(attempt + 1, e, delay)\<close>
  runs (it may raise), and the thread sleeps (which may raise too). An exception raised
  here leaves the wrapper.\<close>

type_synonym on_retry_callback = "int \<Rightarrow> exc \<Rightarrow> rat \<Rightarrow> world \<Rightarrow> exc option \<times> world"

definition backoff_pause ::
  "rat \<Rightarrow> rat \<Rightarrow> rat \<Rightarrow> bool \<Rightarrow> on_retry_callback option \<Rightarrow> int \<Rightarrow> exc \<Rightarrow> world
   \<Rightarrow> exc option \<times> world" where
  "backoff_pause base_delay max_delay backoff_factor jitter on_retry attempt e w =
     (case float_pow backoff_factor (nat attempt) of
        Inl raised \<Rightarrow> (Some raised, w)
      | Inr p \<Rightarrow>
          let delay = min (base_delay * p) max_delay;
              (delay, w1) = (if jitter
                             then let (r, w') = random_random w
                                  in (delay * (1 / 2 + r * (1 / 2)), w')
                             else (delay, w))
          in case on_retry of
               None \<Rightarrow> time_sleep delay w1
             | Some callback \<Rightarrow>
                 (case callback (attempt + 1) e delay w1 of
                    (Some raised, w2) \<Rightarrow> (Some raised, w2)
                  | (None, w2) \<Rightarrow> time_sleep delay w2))"

text \<open>Policies whose delays can be computed and slept: nothing negative, a cap the
  clock can take, and a factor whose powers over the attempts stay in the range of a
  double.\<close>

definition delays_valid :: "int \<Rightarrow> rat \<Rightarrow> rat \<Rightarrow> rat \<Rightarrow> bool" where
  "delays_valid max_attempts base_delay max_delay backoff_factor =
     (0 \<le> base_delay \<and> 0 \<le> max_delay \<and> max_delay * 10 ^ 9 < 2 ^ 63
      \<and> 0 \<le> backoff_factor \<and> backoff_factor ^ nat max_attempts < 2 ^ 1024)"

text \<open>The \<open>for attempt in range(max_attempts)\<close> loop of the wrapper. After the loop the
  code raises \<open>last_exception\<close>, which is still \<open>None\<close> when the range was empty:
  raising \<open>None\<close> is a \<open>TypeError\<close>.\<close>

function retry_loop ::
  "int \<Rightarrow> (int \<Rightarrow> exc \<Rightarrow> world \<Rightarrow> exc option \<times> world) \<Rightarrow> exc list
   \<Rightarrow> (world \<Rightarrow> (exc + 'a) \<times> world) \<Rightarrow> int \<Rightarrow> exc option \<Rightarrow> world \<Rightarrow> (exc + 'a) \<times> world" where
  "retry_loop max_attempts pause exceptions func attempt last_exception w =
     (if attempt < max_attempts then
        (case func w of
           (Inr result, w1) \<Rightarrow> (Inr result, w1)
         | (Inl e, w1) \<Rightarrow>
             if caught_by e exceptions then
               (if attempt = max_attempts - 1 then (Inl e, w1)
                else (case pause attempt e w1 of
                        (Some raised, w2) \<Rightarrow> (Inl raised, w2)
                      | (None, w2) \<Rightarrow>
                          retry_loop max_attempts pause exceptions func (attempt + 1) (Some e) w2))
             else (Inl e, w1))
      else (case last_exception of
              None \<Rightarrow> (Inl TypeError, w)
            | Some e \<Rightarrow> (Inl e, w)))"
  by pat_completeness auto
termination
  by (relation "measure (\<lambda>(max_attempts, pause, exceptions, func, attempt, last_exception, w).
        nat (max_attempts - attempt))") auto

declare retry_loop.simps [simp del]

definition retry_with_backoff ::
  "int \<Rightarrow> rat \<Rightarrow> rat \<Rightarrow> rat \<Rightarrow> bool \<Rightarrow> exc list \<Rightarrow> on_retry_callback option
   \<Rightarrow> (world \<Rightarrow> (exc + 'a) \<times> world) \<Rightarrow> world \<Rightarrow> (exc + 'a) \<times> world" where
  "retry_with_backoff max_attempts base_delay max_delay backoff_factor jitter exceptions
     on_retry func w =
     retry_loop max_attempts
       (backoff_pause base_delay max_delay backoff_factor jitter on_retry)
       exceptions func 0 None w"

text \<open>A stub operation for exercising the wrapper: each invocation leaves an
  \<open>Invoked\<close> event and returns what the script says for that invocation.\<close>

definition invocations :: "world \<Rightarrow> nat" where
  "invocations w = length (filter (\<lambda>ev. ev = Invoked) (trace w))"

definition scripted :: "(nat \<Rightarrow> exc + 'a) \<Rightarrow> world \<Rightarrow> (exc + 'a) \<times> world" where
  "scripted script w = (script (invocations w), w\<lparr>trace := trace w @ [Invoked]\<rparr>)"

subsection \<open>\<open>CircuitBreaker\<close>\<close>

datatype CircuitState = CLOSED | OPEN | HALF_OPEN

record CircuitBreaker =
  failure_threshold :: int
  recovery_timeout :: int
  expected_exception :: exc
  failure_count :: int
  last_failure_time :: "rat option"
  state :: CircuitState

definition CircuitBreaker_init :: "int \<Rightarrow> int \<Rightarrow> exc \<Rightarrow> CircuitBreaker" where
  "CircuitBreaker_init threshold timeout expected =
     \<lparr>failure_threshold = threshold, recovery_timeout = timeout,
      expected_exception = expected, failure_count = 0, last_failure_time = None,
      state = CLOSED\<rparr>"

definition should_attempt_reset :: "CircuitBreaker \<Rightarrow> world \<Rightarrow> bool" where
  "should_attempt_reset cb w =
     (case last_failure_time cb of
        None \<Rightarrow> True
      | Some t \<Rightarrow> now w - t \<ge> of_int (recovery_timeout cb))"

definition on_success :: "CircuitBreaker \<Rightarrow> CircuitBreaker" where
  "on_success cb = cb\<lparr>failure_count := 0, state := CLOSED\<rparr>"

definition on_failure :: "CircuitBreaker \<Rightarrow> world \<Rightarrow> CircuitBreaker" where
  "on_failure cb w =
     (let cb1 = cb\<lparr>failure_count := failure_count cb + 1, last_failure_time := Some (now w)\<rparr>
      in if failure_count cb1 \<ge> failure_threshold cb1 then cb1\<lparr>state := OPEN\<rparr> else cb1)"

definition reset :: "CircuitBreaker \<Rightarrow> CircuitBreaker" where
  "reset cb = cb\<lparr>failure_count := 0, last_failure_time := None, state := CLOSED\<rparr>"

definition is_open :: "CircuitBreaker \<Rightarrow> bool" where
  "is_open cb = (state cb = OPEN)"

text \<open>The \<open>try\<close> part of \<open>_call_with_circuit_breaker\<close>: an exception that is not an
  instance of \<open>expected_exception\<close> passes through and leaves the breaker as it is.\<close>

definition guarded_call ::
  "CircuitBreaker \<Rightarrow> (world \<Rightarrow> (exc + 'a) \<times> world) \<Rightarrow> world
   \<Rightarrow> (exc + 'a) \<times> CircuitBreaker \<times> world" where
  "guarded_call cb func w =
     (case func w of
        (Inr result, w1) \<Rightarrow> (Inr result, on_success cb, w1)
      | (Inl e, w1) \<Rightarrow>
          if isinstance e (expected_exception cb) then (Inl e, on_failure cb w1, w1)
          else (Inl e, cb, w1))"

definition call_with_circuit_breaker ::
  "CircuitBreaker \<Rightarrow> (world \<Rightarrow> (exc + 'a) \<times> world) \<Rightarrow> world
   \<Rightarrow> (exc + 'a) \<times> CircuitBreaker \<times> world" where
  "call_with_circuit_breaker cb func w =
     (if state cb = OPEN then
        (if should_attempt_reset cb w then guarded_call (cb\<lparr>state := HALF_OPEN\<rparr>) func w
         else (Inl CircuitBreakerError, cb, w))
      else guarded_call cb func w)"

text \<open>What every breaker built by \<open>__init__\<close> and driven through its methods satisfies:
  outside the closed state the counter has reached the threshold and a failure time is
  recorded.\<close>

definition cb_inv :: "CircuitBreaker \<Rightarrow> bool" where
  "cb_inv cb =
     (state cb = CLOSED \<or>
      (failure_threshold cb \<le> failure_count cb \<and> last_failure_time cb \<noteq> None))"

text \<open>A breaker with threshold 5 and cooldown 60 that opened at time 0.\<close>

definition breaker_open :: CircuitBreaker where
  "breaker_open = (CircuitBreaker_init 5 60 NetworkError)
     \<lparr>failure_count := 5, last_failure_time := Some 0, state := OPEN\<rparr>"

section \<open>\<open>core/crypto.py\<close>: building the request\<close>

definition ENCRYPTION_KEY :: pystr where
  "ENCRYPTION_KEY = py ''3c5c8717f3daf09iop3423zafeqoi''"

text \<open>\<open>str(value)\<close> for the values a payload holds.\<close>

function decimal_digits :: "int \<Rightarrow> pystr" where
  "decimal_digits n =
     (if n < 10 then [48 + nat n] else decimal_digits (n div 10) @ [48 + nat (n mod 10)])"
  by pat_completeness auto
termination
  by (relation "measure nat") auto

declare decimal_digits.simps [simp del]

definition str_int :: "int \<Rightarrow> pystr" where
  "str_int n = (if n < 0 then 45 # decimal_digits (- n) else decimal_digits n)"

fun str_of :: "pyval \<Rightarrow> pystr" where
  "str_of (PStr s) = s"
| "str_of (PInt n) = str_int n"

text \<open>\<open>urllib.parse.quote(value, safe='')\<close>: the string is encoded as UTF-8 (a lone
  surrogate cannot be encoded) and every byte outside letters, digits and \<open>_.-~\<close> is
  written as \<open>%XX\<close> with uppercase digits.\<close>

definition utf8_encode_char :: "nat \<Rightarrow> exc + nat list" where
  "utf8_encode_char c =
     (if c < 0x80 then Inr [c]
      else if c < 0x800 then Inr [0xC0 + c div 64, 0x80 + c mod 64]
      else if c < 0x10000 then
        (if 0xD800 \<le> c \<and> c \<le> 0xDFFF then Inl UnicodeEncodeError
         else Inr [0xE0 + c div 4096, 0x80 + (c div 64) mod 64, 0x80 + c mod 64])
      else if c < 0x110000 then
        Inr [0xF0 + c div 262144, 0x80 + (c div 4096) mod 64, 0x80 + (c div 64) mod 64,
             0x80 + c mod 64]
      else Inl UnicodeEncodeError)"

fun utf8_encode :: "pystr \<Rightarrow> exc + nat list" where
  "utf8_encode [] = Inr []"
| "utf8_encode (c # cs) =
     (case utf8_encode_char c of
        Inl e \<Rightarrow> Inl e
      | Inr bs \<Rightarrow> (case utf8_encode cs of Inl e \<Rightarrow> Inl e | Inr rest \<Rightarrow> Inr (bs @ rest)))"

definition always_safe :: "nat \<Rightarrow> bool" where
  "always_safe b =
     ((65 \<le> b \<and> b \<le> 90) \<or> (97 \<le> b \<and> b \<le> 122) \<or> (48 \<le> b \<and> b \<le> 57)
      \<or> b = 95 \<or> b = 46 \<or> b = 45 \<or> b = 126)"

definition upper_hex_digit :: "nat \<Rightarrow> nat" where
  "upper_hex_digit d = (if d < 10 then 48 + d else 55 + d)"

definition quote_byte :: "nat \<Rightarrow> pystr" where
  "quote_byte b =
     (if always_safe b then [b]
      else [37, upper_hex_digit (b div 16), upper_hex_digit (b mod 16)])"

definition quote :: "pystr \<Rightarrow> exc + pystr" where
  "quote s =
     (case utf8_encode s of
        Inl e \<Rightarrow> Inl e
      | Inr bs \<Rightarrow> Inr (concat (map quote_byte bs)))"

text \<open>\<open>sep.join(parts)\<close>.\<close>

fun join :: "pystr \<Rightarrow> pystr list \<Rightarrow> pystr" where
  "join sep [] = []"
| "join sep [x] = x"
| "join sep (x # y # ys) = x @ sep @ join sep (y # ys)"

text \<open>A dictionary is an association list in insertion order; its keys are the first
  components, each once.\<close>

definition keys :: "pydict \<Rightarrow> pystr list" where
  "keys data = remdups (map fst data)"

text \<open>The \<open>for key in sorted(data.keys())\<close> loop of \<open>encode_data\<close>. Strings compare
  code point by code point, a proper prefix first.\<close>

fun encode_pairs :: "pydict \<Rightarrow> pystr list \<Rightarrow> exc + pystr list" where
  "encode_pairs data [] = Inr []"
| "encode_pairs data (key # rest) =
     (case map_of data key of
        None \<Rightarrow> Inl KeyError
      | Some v \<Rightarrow>
          (case quote (str_of v) of
             Inl e \<Rightarrow> Inl e
           | Inr encoded_value \<Rightarrow>
               (case encode_pairs data rest of
                  Inl e \<Rightarrow> Inl e
                | Inr encoded_pairs \<Rightarrow> Inr ((key @ [61] @ encoded_value) # encoded_pairs))))"

definition encode_data :: "pydict \<Rightarrow> exc + pystr" where
  "encode_data data =
     (case encode_pairs data (sort (keys data)) of
        Inl e \<Rightarrow> Inl e
      | Inr encoded_pairs \<Rightarrow> Inr (join [38] encoded_pairs))"

text \<open>\<open>hashlib.sha256(s.encode()).hexdigest()\<close> belongs to the Python library; the
  functions below take it as the parameter \<open>sha256\<close>.\<close>

definition generate_signature :: "(pystr \<Rightarrow> pystr) \<Rightarrow> int \<Rightarrow> int \<Rightarrow> pystr" where
  "generate_signature sha256 timestamp random_num =
     sha256 (str_int timestamp @ str_int random_num @ ENCRYPTION_KEY)"

definition generate_random_number :: "int \<Rightarrow> int \<Rightarrow> world \<Rightarrow> int \<times> world" where
  "generate_random_number min_val max_val w = randint min_val max_val w"

definition generate_timestamp :: "world \<Rightarrow> (int \<times> int) \<times> world" where
  "generate_timestamp w =
     (let current_time = int_of_float (now w);
          (r, w1) = generate_random_number 0 1000 w;
          timestamp_ms = current_time * 1000 + r
      in ((current_time, timestamp_ms), w1))"

text \<open>Dictionaries are objects on the heap, addressed by their position; \<open>dict.copy\<close>
  allocates a new one, \<open>d[k] = v\<close> and \<open>d.pop(k, None)\<close> change one in place.\<close>

definition dict_copy :: "nat \<Rightarrow> world \<Rightarrow> nat \<times> world" where
  "dict_copy a w = (length (heap w), w\<lparr>heap := heap w @ [heap w ! a]\<rparr>)"

definition setitem :: "nat \<Rightarrow> pystr \<Rightarrow> pyval \<Rightarrow> world \<Rightarrow> world" where
  "setitem a k v w = w\<lparr>heap := (heap w)[a := AList.update k v (heap w ! a)]\<rparr>"

definition pop :: "nat \<Rightarrow> pystr \<Rightarrow> world \<Rightarrow> world" where
  "pop a k w = w\<lparr>heap := (heap w)[a := AList.delete k (heap w ! a)]\<rparr>"

definition create_request_data ::
  "(pystr \<Rightarrow> pystr) \<Rightarrow> nat \<Rightarrow> pystr \<Rightarrow> pystr \<Rightarrow> int \<Rightarrow> world \<Rightarrow> (exc + nat) \<times> world" where
  "create_request_data sha256 base_data book_id chapter_id last_time w =
     (let (data, w1) = dict_copy base_data w;
          w2 = pop data (py ''s'') w1;
          w3 = setitem data (py ''b'') (PStr book_id) w2;
          w4 = setitem data (py ''c'') (PStr chapter_id) w3;
          ((current_time, timestamp_ms), w5) = generate_timestamp w4;
          w6 = setitem data (py ''ct'') (PInt current_time) w5;
          w7 = setitem data (py ''ts'') (PInt timestamp_ms) w6;
          w8 = setitem data (py ''rt'') (PInt (current_time - last_time)) w7;
          (rn, w9) = generate_random_number 0 1000 w8;
          w10 = setitem data (py ''rn'') (PInt rn) w9;
          w11 = setitem data (py ''sg'') (PStr (generate_signature sha256 timestamp_ms rn)) w10
      in case encode_data (heap w11 ! data) of
           Inl e \<Rightarrow> (Inl e, w11)
         | Inr encoded_data \<Rightarrow>
             (case calculate_hash encoded_data of
                Inl e \<Rightarrow> (Inl e, w11)
              | Inr h \<Rightarrow> (Inr data, setitem data (py ''s'') (PStr h) w11)))"

text \<open>The payload as it stands just before the final hash is stored under \<open>s\<close>, written
  as one value: the copy of the template without \<open>s\<close>, followed by the assignments in
  the order \<open>create_request_data\<close> makes them.\<close>

definition unsigned_payload ::
  "(pystr \<Rightarrow> pystr) \<Rightarrow> pydict \<Rightarrow> pystr \<Rightarrow> pystr \<Rightarrow> int \<Rightarrow> world \<Rightarrow> pydict" where
  "unsigned_payload sha256 base book_id chapter_id last_time w =
     (let current_time = int_of_float (now w);
          timestamp_ms = current_time * 1000 + fst (randint 0 1000 w);
          rn = fst (randint 0 1000 (snd (randint 0 1000 w)))
      in AList.update (py ''sg'') (PStr (generate_signature sha256 timestamp_ms rn))
          (AList.update (py ''rn'') (PInt rn)
            (AList.update (py ''rt'') (PInt (current_time - last_time))
              (AList.update (py ''ts'') (PInt timestamp_ms)
                (AList.update (py ''ct'') (PInt current_time)
                  (AList.update (py ''c'') (PStr chapter_id)
                    (AList.update (py ''b'') (PStr book_id)
                      (AList.delete (py ''s'') base))))))))"

text \<open>A sample world whose heap holds one template, which carries an old \<open>s\<close>.\<close>

definition template_world :: world where
  "template_world = world0\<lparr>heap :=
     [[(py ''appId'', PStr (py ''wb182564874603h266381671'')), (py ''s'', PStr (py ''old'')),
       (py ''b'', PStr (py ''x'')), (py ''ci'', PInt 27)]]\<rparr>"

subsection \<open>\<open>validate_response\<close>\<close>

text \<open>\<open>value != 1\<close> in Python: the integer 1, the float 1.0 and \<open>True\<close> equal 1.\<close>

fun equals_one :: "json \<Rightarrow> bool" where
  "equals_one (JInt n) = (n = 1)"
| "equals_one (JFloat x) = (x = 1)"
| "equals_one (JBool b) = b"
| "equals_one _ = False"

text \<open>On a response that is not an object the membership test or the \<open>get\<close> call
  either fails the check or raises, and the \<open>except\<close> clause returns \<open>False\<close>.\<close>

definition validate_response :: "json \<Rightarrow> bool" where
  "validate_response response_data =
     (case response_data of
        JDict d \<Rightarrow>
          (if map_of d (py ''succ'') = None then False
           else if \<not> equals_one (the (map_of d (py ''succ''))) then False
           else True)
      | _ \<Rightarrow> False)"

section \<open>\<open>core/request_manager.py\<close>\<close>

text \<open>\<open>Response.raise_for_status\<close> raises \<open>HTTPError\<close> for a status from 400 to 599.\<close>

definition raise_for_status :: "response \<Rightarrow> bool" where
  "raise_for_status r = (400 \<le> status_code r \<and> status_code r < 600)"

text \<open>The body of \<open>post_json\<close>, under its decorator: one request; a timeout, a
  connection error, an HTTP error status, a body that is not JSON and any other exception
  all leave as \<open>NetworkError\<close>. The payload does not influence the model's network.\<close>

definition post_json_body :: "endpoint \<Rightarrow> pydict \<Rightarrow> world \<Rightarrow> (exc + json) \<times> world" where
  "post_json_body url data w =
     (case session_post url w of
        (Timeout, w1) \<Rightarrow> (Inl NetworkError, w1)
      | (ConnectionError, w1) \<Rightarrow> (Inl NetworkError, w1)
      | (OtherRequestException, w1) \<Rightarrow> (Inl NetworkError, w1)
      | (Responded r, w1) \<Rightarrow>
          if raise_for_status r then (Inl NetworkError, w1)
          else (case body r of
                  Malformed \<Rightarrow> (Inl NetworkError, w1)
                | Parsed result \<Rightarrow> (Inr result, w1)))"

text \<open>\<open>@retry_with_backoff(max_attempts=3, base_delay=1.0, exceptions=(NetworkError,))\<close>,
  the other parameters at their defaults.\<close>

definition post_json :: "endpoint \<Rightarrow> pydict \<Rightarrow> world \<Rightarrow> (exc + json) \<times> world" where
  "post_json url data =
     retry_with_backoff 3 1 60 2 True [NetworkError] None (post_json_body url data)"

text \<open>The breaker the manager builds in \<open>__init__\<close>.\<close>

definition manager_circuit_breaker :: CircuitBreaker where
  "manager_circuit_breaker = CircuitBreaker_init 5 60 NetworkError"

definition read_book ::
  "CircuitBreaker \<Rightarrow> pydict \<Rightarrow> world \<Rightarrow> (exc + json) \<times> CircuitBreaker \<times> world" where
  "read_book circuit_breaker data w =
     call_with_circuit_breaker circuit_breaker (post_json ReadUrl data) w"

text \<open>\<open>str.split(sep)\<close> for a one-character separator, and the substring test
  \<open>needle in haystack\<close>.\<close>

fun split :: "nat \<Rightarrow> pystr \<Rightarrow> pystr list" where
  "split sep [] = [[]]"
| "split sep (c # cs) =
     (if c = sep then [] # split sep cs
      else (case split sep cs of
              [] \<Rightarrow> [[c]]
            | part # parts \<Rightarrow> (c # part) # parts))"

fun contains :: "pystr \<Rightarrow> pystr \<Rightarrow> bool" where
  "contains needle [] = (needle = [])"
| "contains needle (c # cs) = (prefix needle (c # cs) \<or> contains needle cs)"

text \<open>The \<open>for cookie in set_cookie_header.split(';')\<close> loop of \<open>renew_cookie\<close>:
  the first fragment that contains \<open>wr_skey\<close> decides.\<close>

fun find_skey :: "pystr list \<Rightarrow> pystr option" where
  "find_skey [] = None"
| "find_skey (cookie # cookies) =
     (if contains (py ''wr_skey'') cookie
      then Some (take 8 (last (split 61 cookie)))
      else find_skey cookies)"

definition renew_cookie :: "world \<Rightarrow> (exc + pystr option) \<times> world" where
  "renew_cookie w =
     (case session_post RenewUrl w of
        (Responded r, w1) \<Rightarrow>
          if raise_for_status r then (Inl NetworkError, w1)
          else let set_cookie_header = (case set_cookie r of None \<Rightarrow> [] | Some h \<Rightarrow> h)
               in (Inr (find_skey (split 59 set_cookie_header)), w1)
      | (_, w1) \<Rightarrow> (Inl NetworkError, w1))"

text \<open>\<open>RequestManager.fix_synckey\<close>: one request; every failure is logged and turned
  into \<open>False\<close>.\<close>

definition manager_fix_synckey :: "world \<Rightarrow> bool \<times> world" where
  "manager_fix_synckey w =
     (case session_post FixSynckeyUrl w of
        (Responded r, w1) \<Rightarrow> (\<not> raise_for_status r, w1)
      | (_, w1) \<Rightarrow> (False, w1))"

section \<open>\<open>config/validator.py\<close>: the number of attempts\<close>

text \<open>A configured value is absent, or something \<open>int(value)\<close> accepts, or something
  it rejects.\<close>

datatype config_value = Unset | IntLike int | NotIntLike

definition validate_read_num :: "config_value \<Rightarrow> exc + int" where
  "validate_read_num v =
     (case v of
        Unset \<Rightarrow> Inr 40
      | NotIntLike \<Rightarrow> Inl ValidationError
      | IntLike num \<Rightarrow>
          if num \<le> 0 then Inl ValidationError
          else if num > 1000 then Inl ValidationError
          else Inr num)"

section \<open>\<open>core/bot.py\<close>\<close>

definition book_ids :: "pystr list" where
  "book_ids =
     [py ''36d322f07186022636daa5e'', py ''6f932ec05dd9eb6f96f14b9'',
      py ''43f3229071984b9343f04a4'', py ''d7732ea0813ab7d58g0184b8'',
      py ''3d03298058a9443d052d409'', py ''4fc328a0729350754fc56d4'',
      py ''a743220058a92aa746632c0'', py ''140329d0716ce81f140468e'',
      py ''1d9321c0718ff5e11d9afe8'', py ''ff132750727dc0f6ff1f7b5'',
      py ''e8532a40719c4eb7e851cbe'', py ''9b13257072562b5c9b1c8d6'']"

definition chapter_ids :: "pystr list" where
  "chapter_ids =
     [py ''ecc32f3013eccbc87e4b62e'', py ''a87322c014a87ff679a21ea'',
      py ''e4d32d5015e4da3b7fbb1fa'', py ''16732dc0161679091c5aeb1'',
      py ''8f132430178f14e45fce0f7'', py ''c9f326d018c9f0f895fb5e4'',
      py ''45c322601945c48cce2e120'', py ''d3d322001ad3d9446802347'',
      py ''65132ca01b6512bd43d90e3'', py ''c20321001cc20ad4d76f5ae'',
      py ''c51323901dc51ce410c121b'', py ''aab325601eaab3238922e53'',
      py ''9bf32f301f9bf31c7ff0a60'', py ''c7432af0210c74d97b01b1c'',
      py ''70e32fb021170efdf2eca12'', py ''6f4322302126f4922f45dec'']"

text \<open>The template of \<open>_initialize_data\<close>; the value of \<open>sm\<close> is given by its code
  points.\<close>

definition base_data_template :: pydict where
  "base_data_template =
     [(py ''appId'', PStr (py ''wb182564874603h266381671'')),
      (py ''b'', PStr (py ''ce032b305a9bc1ce0b0dd2a'')),
      (py ''c'', PStr (py ''7f632b502707f6ffaa6bf2e'')),
      (py ''ci'', PInt 27),
      (py ''co'', PInt 389),
      (py ''sm'', PStr [49, 57, 32858, 20250, 12298, 19977, 20307, 12299, 32593, 21451,
                        30340, 32858, 20250, 22320, 28857, 26159, 19968, 22788, 20731, 38745]),
      (py ''pr'', PInt 74),
      (py ''rt'', PInt 15),
      (py ''ps'', PStr (py ''4ee326507a65a465g015fae'')),
      (py ''pc'', PStr (py ''aab32e207a65a466g010615''))]"

text \<open>The state of the bot that the claims are about: its cookies, the breaker of its
  request manager, the address of its template, the configured number of attempts and
  whether a notification channel is enabled.\<close>

record bot =
  cookies :: "(pystr \<times> pystr) list"
  circuit_breaker :: CircuitBreaker
  base_data :: nat
  read_num :: int
  notification_enabled :: bool

text \<open>Both notification helpers send only when the channel is enabled, and log a
  failure to send instead of raising.\<close>

definition send_error_notification :: "bot \<Rightarrow> world \<Rightarrow> world" where
  "send_error_notification b w =
     (if notification_enabled b then w\<lparr>trace := trace w @ [Notified]\<rparr> else w)"

definition send_completion_notification :: "bot \<Rightarrow> world \<Rightarrow> world" where
  "send_completion_notification b w =
     (if notification_enabled b then w\<lparr>trace := trace w @ [Notified]\<rparr> else w)"

text \<open>\<open>if new_skey:\<close> is false for \<open>None\<close> and for the empty string.\<close>

definition refresh_cookie :: "bot \<Rightarrow> world \<Rightarrow> bool \<times> bot \<times> world" where
  "refresh_cookie b w =
     (case renew_cookie w of
        (Inl e, w1) \<Rightarrow> (False, b, send_error_notification b w1)
      | (Inr None, w1) \<Rightarrow> (False, b, send_error_notification b w1)
      | (Inr (Some new_skey), w1) \<Rightarrow>
          if new_skey \<noteq> []
          then (True, b\<lparr>cookies := AList.update (py ''wr_skey'') new_skey (cookies b)\<rparr>, w1)
          else (False, b, send_error_notification b w1))"

definition fix_synckey :: "bot \<Rightarrow> world \<Rightarrow> bool \<times> world" where
  "fix_synckey b w = manager_fix_synckey w"

text \<open>The messages \<open>read_once\<close> returns with a failure.\<close>

datatype read_error = MissingSynckey | CookieRefreshed | CookieRefreshFailed
  | RequestFailed exc

text \<open>\<open>'synckey' in response\<close>, reached only for a response that passed
  \<open>validate_response\<close>, hence an object.\<close>

definition has_key :: "pystr \<Rightarrow> json \<Rightarrow> bool" where
  "has_key k response = (case response of JDict d \<Rightarrow> map_of d k \<noteq> None | _ \<Rightarrow> False)"

definition read_once ::
  "(pystr \<Rightarrow> pystr) \<Rightarrow> bot \<Rightarrow> pystr \<Rightarrow> pystr \<Rightarrow> int \<Rightarrow> world
   \<Rightarrow> (bool \<times> int \<times> read_error option) \<times> bot \<times> world" where
  "read_once sha256 b book_id chapter_id last_time w =
     (case create_request_data sha256 (base_data b) book_id chapter_id last_time w of
        (Inl e, w1) \<Rightarrow> ((False, last_time, Some (RequestFailed e)), b, w1)
      | (Inr request_data, w1) \<Rightarrow>
          (case read_book (circuit_breaker b) (heap w1 ! request_data) w1 of
             (Inl e, cb, w2) \<Rightarrow>
               ((False, last_time, Some (RequestFailed e)), b\<lparr>circuit_breaker := cb\<rparr>, w2)
           | (Inr response, cb, w2) \<Rightarrow>
               let b1 = b\<lparr>circuit_breaker := cb\<rparr> in
               if validate_response response then
                 (case map_of (heap w2 ! request_data) (py ''ct'') of
                    Some (PInt current_time) \<Rightarrow>
                      if has_key (py ''synckey'') response
                      then ((True, current_time, None), b1, w2)
                      else let (fixed, w3) = fix_synckey b1 w2
                           in ((False, last_time, Some MissingSynckey), b1, w3)
                  | _ \<Rightarrow> ((False, last_time, Some (RequestFailed KeyError)), b1, w2))
               else
                 (case refresh_cookie b1 w2 of
                    (True, b2, w3) \<Rightarrow> ((False, last_time, Some CookieRefreshed), b2, w3)
                  | (False, b2, w3) \<Rightarrow> ((False, last_time, Some CookieRefreshFailed), b2, w3))))"

text \<open>The first lines of the loop body of \<open>start_reading\<close>: pick a book and a chapter,
  read once.\<close>

definition pick_and_read ::
  "(pystr \<Rightarrow> pystr) \<Rightarrow> int \<Rightarrow> bot \<Rightarrow> world
   \<Rightarrow> (exc + bool \<times> int \<times> read_error option) \<times> bot \<times> world" where
  "pick_and_read sha256 last_time b w =
     (case random_choice book_ids w of
        (Inl e, w1) \<Rightarrow> (Inl e, b, w1)
      | (Inr book_id, w1) \<Rightarrow>
          (case random_choice chapter_ids w1 of
             (Inl e, w2) \<Rightarrow> (Inl e, b, w2)
           | (Inr chapter_id, w2) \<Rightarrow>
               (case read_once sha256 b book_id chapter_id last_time w2 of
                  (r, b1, w3) \<Rightarrow> (Inr r, b1, w3))))"

text \<open>\<open>for attempt in range(1, self.read_num + 1)\<close>; \<open>stop\<close> is the end of the range,
  computed once. The loop hands back \<open>success_count\<close> and \<open>last_time\<close>.\<close>

function reading_loop ::
  "(pystr \<Rightarrow> pystr) \<Rightarrow> int \<Rightarrow> int \<Rightarrow> int \<Rightarrow> int \<Rightarrow> bot \<Rightarrow> world
   \<Rightarrow> (exc + int \<times> int) \<times> bot \<times> world" where
  "reading_loop sha256 stop attempt success_count last_time b w =
     (if attempt < stop then
        (case pick_and_read sha256 last_time b w of
           (Inl e, b1, w1) \<Rightarrow> (Inl e, b1, w1)
         | (Inr (success, current_time, error), b1, w1) \<Rightarrow>
             if success
             then (case time_sleep 30 w1 of
                     (Some raised, w2) \<Rightarrow> (Inl raised, b1, w2)
                   | (None, w2) \<Rightarrow>
                       reading_loop sha256 stop (attempt + 1) (success_count + 1) current_time
                         b1 w2)
             else (case time_sleep 5 w1 of
                     (Some raised, w2) \<Rightarrow> (Inl raised, b1, w2)
                   | (None, w2) \<Rightarrow>
                       reading_loop sha256 stop (attempt + 1) success_count last_time b1 w2))
      else (Inr (success_count, last_time), b, w))"
  by pat_completeness auto
termination
  by (relation "measure (\<lambda>(sha256, stop, attempt, success_count, last_time, b, w).
        nat (stop - attempt))") auto

declare reading_loop.simps [simp del]

text \<open>The outcomes of the attempts the loop makes, one entry for each pass through the
  loop body, in order: what \<open>read_once\<close> returned.\<close>

function attempt_results ::
  "(pystr \<Rightarrow> pystr) \<Rightarrow> int \<Rightarrow> int \<Rightarrow> int \<Rightarrow> bot \<Rightarrow> world
   \<Rightarrow> (bool \<times> int \<times> read_error option) list" where
  "attempt_results sha256 stop attempt last_time b w =
     (if attempt < stop then
        (case pick_and_read sha256 last_time b w of
           (Inl e, b1, w1) \<Rightarrow> []
         | (Inr (success, current_time, error), b1, w1) \<Rightarrow>
             (success, current_time, error) #
             (if success
              then (case time_sleep 30 w1 of
                      (Some raised, w2) \<Rightarrow> []
                    | (None, w2) \<Rightarrow>
                        attempt_results sha256 stop (attempt + 1) current_time b1 w2)
              else (case time_sleep 5 w1 of
                      (Some raised, w2) \<Rightarrow> []
                    | (None, w2) \<Rightarrow>
                        attempt_results sha256 stop (attempt + 1) last_time b1 w2)))
      else [])"
  by pat_completeness auto
termination
  by (relation "measure (\<lambda>(sha256, stop, attempt, last_time, b, w). nat (stop - attempt))") auto

declare attempt_results.simps [simp del]

record reading_result =
  success_count :: int
  total_attempts :: int
  reading_minutes :: rat
  success_rate :: rat

definition start_reading ::
  "(pystr \<Rightarrow> pystr) \<Rightarrow> bot \<Rightarrow> world \<Rightarrow> (exc + reading_result) \<times> bot \<times> world" where
  "start_reading sha256 b w =
     (case refresh_cookie b w of
        (False, b1, w1) \<Rightarrow> (Inl AuthError, b1, w1)
      | (True, b1, w1) \<Rightarrow>
          let last_time = int_of_float (now w1) - 30 in
          (case reading_loop sha256 (read_num b1 + 1) 1 0 last_time b1 w1 of
             (Inl e, b2, w2) \<Rightarrow> (Inl e, b2, w2)
           | (Inr (count, final_time), b2, w2) \<Rightarrow>
               if read_num b2 = 0 then (Inl ZeroDivisionError, b2, w2)
               else
                 let total_minutes = of_int count * (1 / 2);
                     result = \<lparr>success_count = count, total_attempts = read_num b2,
                       reading_minutes = total_minutes,
                       success_rate = of_int count / of_int (read_num b2) * 100\<rparr>
                 in (Inr result, b2, send_completion_notification b2 w2)))"

text \<open>The attempts of a whole run, as \<open>start_reading\<close> makes them after a successful
  first renewal.\<close>

definition run_results ::
  "(pystr \<Rightarrow> pystr) \<Rightarrow> bot \<Rightarrow> world \<Rightarrow> (bool \<times> int \<times> read_error option) list" where
  "run_results sha256 b w =
     (case refresh_cookie b w of
        (False, b1, w1) \<Rightarrow> []
      | (True, b1, w1) \<Rightarrow>
          attempt_results sha256 (read_num b1 + 1) 1 (int_of_float (now w1) - 30) b1 w1)"

text \<open>The \<open>last_time\<close> the loop holds after a list of attempts: it moves to the time
  an attempt returned exactly when that attempt succeeded.\<close>

fun last_accepted :: "int \<Rightarrow> (bool \<times> int \<times> read_error option) list \<Rightarrow> int" where
  "last_accepted t [] = t"
| "last_accepted t ((success, current_time, error) # rest) =
     last_accepted (if success then current_time else t) rest"

section \<open>Sample runs\<close>

text \<open>A server that accepts everything: every request is answered with status 200, a
  \<open>Set-Cookie\<close> header carrying a session key, and a body with \<open>succ\<close> 1 and a
  \<open>synckey\<close>.\<close>

definition accepted :: response where
  "accepted = \<lparr>status_code = 200,
     set_cookie = Some (py ''wr_vid=12; Path=/, wr_skey=AbCdEfGhIJ; Path=/''),
     body = Parsed (JDict [(py ''succ'', JInt 1), (py ''synckey'', JInt 123)])\<rparr>"

definition world_accepting :: world where
  "world_accepting = world0\<lparr>net := (\<lambda>n. Responded accepted), heap := [base_data_template]\<rparr>"

text \<open>A server whose answers say \<open>succ\<close> 1 but carry no \<open>synckey\<close>, and one whose
  answers say \<open>succ\<close> 0.\<close>

definition world_no_synckey :: world where
  "world_no_synckey = world0\<lparr>net := (\<lambda>n. Responded
       \<lparr>status_code = 200, set_cookie = None, body = Parsed (JDict [(py ''succ'', JInt 1)])\<rparr>),
     heap := [base_data_template]\<rparr>"

definition world_expired :: world where
  "world_expired = world0\<lparr>net := (\<lambda>n. Responded
       \<lparr>status_code = 200, set_cookie = Some (py ''wr_skey=NewKey12; Path=/''),
        body = Parsed (JDict [(py ''succ'', JInt 0)])\<rparr>),
     heap := [base_data_template]\<rparr>"

text \<open>A server that answers every request with status 500.\<close>

definition world_failing :: world where
  "world_failing = world0\<lparr>net := (\<lambda>n. Responded
       \<lparr>status_code = 500, set_cookie = None, body = Malformed\<rparr>),
     heap := [base_data_template]\<rparr>"

definition bot0 :: bot where
  "bot0 = \<lparr>cookies = [], circuit_breaker = manager_circuit_breaker, base_data = 0,
     read_num = 10, notification_enabled = False\<rparr>"


text \<open>A stand-in for the SHA-256 hex digest in sample runs.\<close>

definition sample_digest :: "pystr \<Rightarrow> pystr" where
  "sample_digest s = py ''e3b0c44298fc1c149afbf4c8996fb92427ae41e4649b934ca495991b7852b855''"

text \<open>Strings without surrogates, and payload values that hold such strings: these are
  the ones \<open>quote\<close> can encode.\<close>

definition text_ok :: "pystr \<Rightarrow> bool" where
  "text_ok s = list_all (\<lambda>c. c < 0xD800) s"

fun value_ok :: "pyval \<Rightarrow> bool" where
  "value_ok (PStr s) = text_ok s"
| "value_ok (PInt n) = True"

definition dict_ok :: "pydict \<Rightarrow> bool" where
  "dict_ok data = list_all (\<lambda>kv. value_ok (snd kv)) data"

text \<open>A bot and a world in which the next attempt is bound to succeed: the server
  accepts everything, the breaker is closed and the template is a live object that can be
  serialized.\<close>

definition ready :: "bot \<Rightarrow> world \<Rightarrow> bool" where
  "ready b w =
     (net w = (\<lambda>n. Responded accepted) \<and> state (circuit_breaker b) = CLOSED
      \<and> base_data b < length (heap w) \<and> dict_ok (heap w ! base_data b))"


section \<open>Properties of the hash\<close>

lemma getitem_in_range:
  "0 \<le> i \<Longrightarrow> i < int (length s) \<Longrightarrow> getitem s i = Inr (s ! nat i)"
  by (simp add: getitem_def)

lemma calculate_hash_body_spec:
  assumes "0 < i" and "i < int (length s)"
  shows "calculate_hash_body s h1 h2 i = Inr (spec_step s i (h1, h2))"
proof -
  have a: "getitem s i = Inr (s ! nat i)"
    using assms by (simp add: getitem_in_range)
  have b: "getitem s (i - 1) = Inr (s ! nat (i - 1))"
    using assms by (simp add: getitem_in_range)
  show ?thesis
    using assms(1)
    by (simp add: calculate_hash_body_def a b spec_step_def code_def Let_def and.commute)
qed

lemma calculate_hash_loop_spec:
  "i < int (length s) \<Longrightarrow>
   calculate_hash_loop s h1 h2 i = Inr (fold (spec_step s) (spec_indices i) (h1, h2))"
proof (induction s h1 h2 i rule: calculate_hash_loop.induct)
  case (1 s h1 h2 i)
  show ?case
  proof (cases "0 < i")
    case False
    then show ?thesis
      by (simp add: calculate_hash_loop.simps [of s h1 h2 i] spec_indices.simps [of i])
  next
    case True
    obtain a b where ab: "spec_step s i (h1, h2) = (a, b)"
      by (cases "spec_step s i (h1, h2)")
    have body: "calculate_hash_body s h1 h2 i = Inr (a, b)"
      using True "1.prems" ab by (simp add: calculate_hash_body_spec)
    have "calculate_hash_loop s a b (i - 2)
          = Inr (fold (spec_step s) (spec_indices (i - 2)) (a, b))"
      using "1.IH" [OF True body refl] "1.prems" by simp
    then show ?thesis
      using True body ab
      by (simp add: calculate_hash_loop.simps [of s h1 h2 i] spec_indices.simps [of i])
  qed
qed

lemma spec_step_bounds:
  assumes "0 \<le> fst acc" "fst acc < 2 ^ 31" "0 \<le> snd acc" "snd acc < 2 ^ 31"
  shows "0 \<le> fst (spec_step s i acc) \<and> fst (spec_step s i acc) < 2 ^ 31
       \<and> 0 \<le> snd (spec_step s i acc) \<and> snd (spec_step s i acc) < 2 ^ 31"
proof -
  have m: "\<And>x::int. 0 \<le> x AND 0x7fffffff \<and> x AND 0x7fffffff < 2 ^ 31"
  proof -
    fix x :: int
    have "x AND 0x7fffffff \<le> 0x7fffffff"
      by (rule AND_upper2) simp
    then show "0 \<le> x AND 0x7fffffff \<and> x AND 0x7fffffff < 2 ^ 31"
      by simp
  qed
  show ?thesis
    using assms m by (simp add: spec_step_def Let_def)
qed

lemma fold_spec_step_bounds:
  "0 \<le> fst acc \<Longrightarrow> fst acc < 2 ^ 31 \<Longrightarrow> 0 \<le> snd acc \<Longrightarrow> snd acc < 2 ^ 31 \<Longrightarrow>
   0 \<le> fst (fold (spec_step s) is acc) \<and> fst (fold (spec_step s) is acc) < 2 ^ 31
   \<and> 0 \<le> snd (fold (spec_step s) is acc) \<and> snd (fold (spec_step s) is acc) < 2 ^ 31"
proof (induction "is" arbitrary: acc)
  case Nil
  then show ?case by simp
next
  case (Cons i "is")
  have "0 \<le> fst (spec_step s i acc) \<and> fst (spec_step s i acc) < 2 ^ 31
       \<and> 0 \<le> snd (spec_step s i acc) \<and> snd (spec_step s i acc) < 2 ^ 31"
    using Cons.prems by (rule spec_step_bounds)
  then show ?case
    using Cons.IH [of "spec_step s i acc"] by simp
qed

lemma spec_accumulators_bounds:
  "0 \<le> fst (spec_accumulators s) \<and> fst (spec_accumulators s) < 2 ^ 31
   \<and> 0 \<le> snd (spec_accumulators s) \<and> snd (spec_accumulators s) < 2 ^ 31"
  unfolding spec_accumulators_def by (rule fold_spec_step_bounds) simp_all

lemma hex_digit_lowercase: "d < 16 \<Longrightarrow> \<not> (65 \<le> hex_digit d \<and> hex_digit d \<le> 90)"
  by (simp add: hex_digit_def)

lemma lower_hex_digits: "lower (hex_digits n) = hex_digits n"
proof (induction n rule: hex_digits.induct)
  case (1 n)
  show ?case
  proof (cases "n < 16")
    case True
    then have "nat n < 16" by simp
    then show ?thesis
      using True hex_digit_lowercase [of "nat n"]
      by (simp add: hex_digits.simps [of n] lower_def)
  next
    case False
    have "nat (n mod 16) < 16" by simp
    then show ?thesis
      using False "1.IH" hex_digit_lowercase [of "nat (n mod 16)"]
      by (simp add: hex_digits.simps [of n] lower_def)
  qed
qed

lemma hex_strip_prefix: "0 \<le> n \<Longrightarrow> lower (drop 2 (hex n)) = hex_digits n"
  by (simp add: hex_def py_def lower_hex_digits)

lemma calculate_hash_eq_spec: "calculate_hash s = Inr (spec_hash s)"
proof -
  have loop: "calculate_hash_loop s 0x15051505 0x15051505 (int (length s) - 1)
              = Inr (spec_accumulators s)"
    unfolding spec_accumulators_def by (rule calculate_hash_loop_spec) simp
  have "0 \<le> fst (spec_accumulators s) + snd (spec_accumulators s)"
    using spec_accumulators_bounds [of s] by simp
  then show ?thesis
    by (cases "spec_accumulators s")
       (simp add: calculate_hash_def loop spec_hash_def hex_strip_prefix)
qed

lemma spec_accumulators_short:
  "length s \<le> 1 \<Longrightarrow> spec_accumulators s = (0x15051505, 0x15051505)"
  by (simp add: spec_accumulators_def spec_indices.simps [of "int (length s) - 1"])

lemma hex_seed_sum: "hex_digits (2 * 0x15051505) = py ''2a0a2a0a''"
  by code_simp

text \<open>C1. For every string, \<open>calculate_hash\<close> returns (and never raises) the lowercase
  hexadecimal digits, without prefix or padding, of the sum of the two accumulators the
  specification describes: both start at \<open>0x15051505\<close>, the index runs from \<open>L - 1\<close> down
  to 1 in steps of 2, and both stay 31-bit values. For the empty string and for every
  string of length 1 the result is the hexadecimal of \<open>2 * 0x15051505\<close>, that is
  \<open>2a0a2a0a\<close>.\<close>

theorem calculate_hash_refines_spec:
  "calculate_hash s = Inr (spec_hash s)
   \<and> 0 \<le> fst (spec_accumulators s) \<and> fst (spec_accumulators s) < 2 ^ 31
   \<and> 0 \<le> snd (spec_accumulators s) \<and> snd (spec_accumulators s) < 2 ^ 31
   \<and> calculate_hash [] = Inr (hex_digits (2 * 0x15051505))
   \<and> calculate_hash [c] = Inr (hex_digits (2 * 0x15051505))
   \<and> hex_digits (2 * 0x15051505) = py ''2a0a2a0a''"
proof -
  have e: "spec_hash [] = hex_digits (2 * 0x15051505)"
    by (simp add: spec_hash_def spec_accumulators_short)
  have o: "spec_hash [c] = hex_digits (2 * 0x15051505)"
    by (simp add: spec_hash_def spec_accumulators_short)
  show ?thesis
    using spec_accumulators_bounds [of s] e o hex_seed_sum
    by (simp add: calculate_hash_eq_spec)
qed
section \<open>Properties of the retry wrapper\<close>

lemma invocations_sleep [simp]: "invocations (sleep d w) = invocations w"
  by (simp add: invocations_def sleep_def)

lemma invocations_random_random [simp]: "invocations (snd (random_random w)) = invocations w"
  by (simp add: invocations_def random_random_def random_draw_def)

lemma power_below:
  fixes f :: rat
  assumes "0 \<le> f" and "f ^ n < B" and "1 < B" and "a \<le> n"
  shows "f ^ a < B"
proof (cases "f \<le> 1")
  case True
  then have "f ^ a \<le> 1" using assms(1) by (simp add: power_le_one)
  then show ?thesis using assms(3) by simp
next
  case False
  then have "f ^ a \<le> f ^ n" using assms(4) by (simp add: power_increasing)
  then show ?thesis using assms(2) by simp
qed

lemma float_pow_valid:
  assumes "delays_valid M b m f" and "0 \<le> attempt" and "attempt < M"
  shows "float_pow f (nat attempt) = Inr (f ^ nat attempt)"
proof -
  have f: "0 \<le> f" and top: "f ^ nat M < 2 ^ 1024"
    using assms(1) by (simp_all add: delays_valid_def)
  have "nat attempt \<le> nat M" using assms(2,3) by simp
  then have "f ^ nat attempt < 2 ^ 1024"
    using power_below [OF f top] by simp
  moreover have "0 \<le> f ^ nat attempt" using f by simp
  ultimately show ?thesis by (simp add: float_pow_def)
qed

lemma time_sleep_valid:
  assumes "0 \<le> d" and "d \<le> m" and "m * 10 ^ 9 < 2 ^ 63"
  shows "time_sleep d w = (None, sleep d w)"
proof -
  have "d * 10 ^ 9 \<le> m * 10 ^ 9" using assms(2) by simp
  then have "d * 10 ^ 9 < 2 ^ 63" using assms(3) by simp
  then show ?thesis using assms(1) by (simp add: time_sleep_def)
qed

lemma random_random_range: "0 \<le> fst (random_random w) \<and> fst (random_random w) < 1"
  by (simp add: random_random_def random_draw_def)

lemma jittered_range:
  fixes d r :: rat
  assumes "0 \<le> d" and "0 \<le> r" and "r < 1"
  shows "0 \<le> d * (1 / 2 + r * (1 / 2)) \<and> d * (1 / 2 + r * (1 / 2)) \<le> d"
proof -
  have "0 \<le> 1 / 2 + r * (1 / 2)" "1 / 2 + r * (1 / 2) \<le> 1"
    using assms(2,3) by simp_all
  then show ?thesis
    using assms(1) by (simp add: mult_left_le)
qed

lemma backoff_pause_no_callback:
  assumes "delays_valid M b m f" and "0 \<le> attempt" and "attempt < M"
  shows "\<exists>w'. backoff_pause b m f jit None attempt e w = (None, w')
           \<and> invocations w' = invocations w"
proof -
  have b: "0 \<le> b" and m: "0 \<le> m" "m * 10 ^ 9 < 2 ^ 63" and f: "0 \<le> f"
    using assms(1) by (simp_all add: delays_valid_def)
  define d where "d = min (b * f ^ nat attempt) m"
  have d: "0 \<le> d" "d \<le> m"
    using b m f by (simp_all add: d_def)
  have p: "float_pow f (nat attempt) = Inr (f ^ nat attempt)"
    using assms by (rule float_pow_valid)
  show ?thesis
  proof (cases jit)
    case False
    then show ?thesis
      using time_sleep_valid [OF d m(2), of w]
      by (simp add: backoff_pause_def p Let_def d_def)
  next
    case True
    obtain r w1 where r: "random_random w = (r, w1)" by (cases "random_random w")
    have rr: "0 \<le> r" "r < 1" using random_random_range [of w] r by simp_all
    have w1: "invocations w1 = invocations w"
      using invocations_random_random [of w] r by simp
    have j: "0 \<le> d * (1 / 2 + r * (1 / 2))" "d * (1 / 2 + r * (1 / 2)) \<le> m"
      using jittered_range [OF d(1) rr] d(2) by simp_all
    show ?thesis
      using True time_sleep_valid [OF j m(2), of w1] w1
      by (simp add: backoff_pause_def p Let_def d_def [symmetric] r)
  qed
qed

lemma scripted_step:
  "\<exists>w'. scripted script w = (script (invocations w), w') \<and> invocations w' = Suc (invocations w)"
  by (simp add: scripted_def invocations_def)

lemma retry_loop_failures:
  assumes "\<forall>j<k. \<exists>e. script (invocations w + j) = Inl e \<and> caught_by e excs"
    and "attempt + int k < M" and "0 \<le> attempt" and "delays_valid M b m f"
  shows "\<exists>w' lst'.
           retry_loop M (backoff_pause b m f jit None) excs (scripted script) attempt lst w
           = retry_loop M (backoff_pause b m f jit None) excs (scripted script)
               (attempt + int k) lst' w'
           \<and> invocations w' = invocations w + k"
  using assms
proof (induction k arbitrary: attempt lst w)
  case 0
  then show ?case by auto
next
  case (Suc k)
  from Suc.prems(1) obtain e where e: "script (invocations w) = Inl e" "caught_by e excs"
    by force
  obtain w1 where w1: "scripted script w = (Inl e, w1)" "invocations w1 = Suc (invocations w)"
    using scripted_step [of script w] e by auto
  have lt: "attempt < M" using Suc.prems(2) by simp
  obtain w2 where w2: "backoff_pause b m f jit None attempt e w1 = (None, w2)"
      "invocations w2 = invocations w1"
    using backoff_pause_no_callback [OF Suc.prems(4) Suc.prems(3) lt] by blast
  have step: "retry_loop M (backoff_pause b m f jit None) excs (scripted script) attempt lst w
     = retry_loop M (backoff_pause b m f jit None) excs (scripted script) (attempt + 1) (Some e) w2"
    using Suc.prems(2) e w1 w2
    by (subst retry_loop.simps) simp
  have "\<forall>j<k. \<exists>e. script (invocations w2 + j) = Inl e \<and> caught_by e excs"
    using Suc.prems(1) w1 w2 by (metis Suc_less_eq add_Suc add_Suc_right)
  moreover have "attempt + 1 + int k < M" "0 \<le> attempt + 1"
    using Suc.prems(2,3) by simp_all
  ultimately obtain w' lst' where
    "retry_loop M (backoff_pause b m f jit None) excs (scripted script) (attempt + 1) (Some e) w2
     = retry_loop M (backoff_pause b m f jit None) excs (scripted script) (attempt + 1 + int k) lst' w'"
    "invocations w' = invocations w2 + k"
    using Suc.IH [of w2 "attempt + 1" "Some e"] Suc.prems(4) by blast
  then show ?case
    using step w1 w2 by (auto simp: add.assoc algebra_simps)
qed

lemma retry_loop_success_at:
  assumes "script (invocations w) = Inr v" and "attempt < M"
  shows "\<exists>w'. retry_loop M P excs (scripted script) attempt lst w = (Inr v, w')
          \<and> invocations w' = Suc (invocations w)"
  using assms scripted_step [of script w]
  by (subst retry_loop.simps) auto

lemma retry_loop_not_retryable_at:
  assumes "script (invocations w) = Inl e" and "\<not> caught_by e excs" and "attempt < M"
  shows "\<exists>w'. retry_loop M P excs (scripted script) attempt lst w = (Inl e, w')
          \<and> invocations w' = Suc (invocations w)"
  using assms scripted_step [of script w]
  by (subst retry_loop.simps) auto

lemma retry_loop_last_attempt:
  assumes "script (invocations w) = Inl e" and "caught_by e excs" and "attempt = M - 1"
  shows "\<exists>w'. retry_loop M P excs (scripted script) attempt lst w = (Inl e, w')
          \<and> invocations w' = Suc (invocations w)"
  using assms scripted_step [of script w]
  by (subst retry_loop.simps) auto

text \<open>C4. For a policy whose delays can be computed and slept (nothing negative, a cap
  the clock can take, powers of the factor within the range of a double; the policy of
  this repository, 3 attempts with delays 1.0, 60.0 and factor 2.0, is one) and any
  operation wrapped by it (here the stub that counts its invocations): if the operation
  fails \<open>k < max_attempts\<close> times with a retryable exception and then succeeds, the
  wrapper returns that value after exactly \<open>k + 1\<close> invocations; if it fails with a
  retryable exception every time, the wrapper makes exactly \<open>max_attempts\<close> invocations
  and raises the last exception; and a failure that is not retryable is raised at once,
  with no further invocation.\<close>

theorem retry_with_backoff_contract:
  fixes script :: "nat \<Rightarrow> exc + 'a" and M :: int and b m f :: rat and jit :: bool
    and excs :: "exc list"
  defines "run \<equiv> retry_with_backoff M b m f jit excs None (scripted script)"
  assumes valid: "delays_valid M b m f"
  shows
    "(int k < M \<and> (\<forall>j<k. \<exists>e. script (invocations w + j) = Inl e \<and> caught_by e excs)
        \<and> script (invocations w + k) = Inr v
      \<longrightarrow> fst (run w) = Inr v \<and> invocations (snd (run w)) = invocations w + (k + 1))
   \<and> (0 < M \<and> (\<forall>j<nat M. \<exists>e. script (invocations w + j) = Inl e \<and> caught_by e excs)
      \<longrightarrow> fst (run w) = script (invocations w + (nat M - 1))
          \<and> invocations (snd (run w)) = invocations w + nat M)
   \<and> (int k < M \<and> (\<forall>j<k. \<exists>e. script (invocations w + j) = Inl e \<and> caught_by e excs)
        \<and> script (invocations w + k) = Inl x \<and> \<not> caught_by x excs
      \<longrightarrow> fst (run w) = Inl x \<and> invocations (snd (run w)) = invocations w + (k + 1))"
proof (intro conjI impI)
  let ?P = "backoff_pause b m f jit None"
  {
    assume a: "int k < M \<and> (\<forall>j<k. \<exists>e. script (invocations w + j) = Inl e \<and> caught_by e excs)
        \<and> script (invocations w + k) = Inr v"
    then obtain w' lst' where
      p: "retry_loop M ?P excs (scripted script) 0 None w
          = retry_loop M ?P excs (scripted script) (0 + int k) lst' w'"
         "invocations w' = invocations w + k"
      using retry_loop_failures [where k = k and w = w and attempt = 0 and M = M and script = script
          and excs = excs and jit = jit and lst = None, OF _ _ _ valid]
      by auto
    obtain w'' where "retry_loop M ?P excs (scripted script) (0 + int k) lst' w' = (Inr v, w'')"
      "invocations w'' = Suc (invocations w')"
      using retry_loop_success_at [of script w' v "0 + int k" M ?P excs lst'] a p(2) by auto
    then have r: "run w = (Inr v, w'')" "invocations w'' = invocations w + (k + 1)"
      using p by (simp_all add: run_def retry_with_backoff_def)
    show "fst (run w) = Inr v" using r by simp
    show "invocations (snd (run w)) = invocations w + (k + 1)" using r by simp
  }
  {
    assume a: "0 < M \<and> (\<forall>j<nat M. \<exists>e. script (invocations w + j) = Inl e \<and> caught_by e excs)"
    define k where "k = nat M - 1"
    have Mpos: "0 < M" using a by simp
    have k: "int k = M - 1" "k < nat M" using Mpos unfolding k_def by linarith+
    then obtain w' lst' where
      p: "retry_loop M ?P excs (scripted script) 0 None w
          = retry_loop M ?P excs (scripted script) (0 + int k) lst' w'"
         "invocations w' = invocations w + k"
      using retry_loop_failures [where k = k and w = w and attempt = 0 and M = M and script = script
          and excs = excs and jit = jit and lst = None, OF _ _ _ valid] a
      by auto
    obtain e where e: "script (invocations w') = Inl e" "caught_by e excs"
      using a k p(2) by auto
    obtain w'' where "retry_loop M ?P excs (scripted script) (0 + int k) lst' w' = (Inl e, w'')"
      "invocations w'' = Suc (invocations w')"
      using retry_loop_last_attempt [of script w' e excs "0 + int k" M ?P lst'] e k by auto
    then have r: "run w = (Inl e, w'')" "invocations w'' = invocations w + nat M"
      using p a by (simp_all add: run_def retry_with_backoff_def k_def)
    show "fst (run w) = script (invocations w + (nat M - 1))"
      using r e p(2) by (simp add: k_def)
    show "invocations (snd (run w)) = invocations w + nat M" using r by simp
  }
  {
    assume a: "int k < M \<and> (\<forall>j<k. \<exists>e. script (invocations w + j) = Inl e \<and> caught_by e excs)
        \<and> script (invocations w + k) = Inl x \<and> \<not> caught_by x excs"
    then obtain w' lst' where
      p: "retry_loop M ?P excs (scripted script) 0 None w
          = retry_loop M ?P excs (scripted script) (0 + int k) lst' w'"
         "invocations w' = invocations w + k"
      using retry_loop_failures [where k = k and w = w and attempt = 0 and M = M and script = script
          and excs = excs and jit = jit and lst = None, OF _ _ _ valid]
      by auto
    obtain w'' where "retry_loop M ?P excs (scripted script) (0 + int k) lst' w' = (Inl x, w'')"
      "invocations w'' = Suc (invocations w')"
      using retry_loop_not_retryable_at [of script w' x excs "0 + int k" M ?P lst'] a p(2) by auto
    then have r: "run w = (Inl x, w'')" "invocations w'' = invocations w + (k + 1)"
      using p by (simp_all add: run_def retry_with_backoff_def)
    show "fst (run w) = Inl x" using r by simp
    show "invocations (snd (run w)) = invocations w + (k + 1)" using r by simp
  }
qed

lemma caught_by_simps [simp]:
  "caught_by e [] = False"
  "caught_by e (c # cs) = (isinstance e c \<or> caught_by e cs)"
  by (simp_all add: caught_by_def)

lemma isinstance_self [simp]: "isinstance e e"
  by (cases e) (simp_all add: isinstance_def)

lemma invocations_world0 [simp]: "invocations world0 = 0"
  by (simp add: invocations_def world0_def)

theorem retry_with_backoff_contract_witness:
  "fst (retry_with_backoff 3 1 60 2 True [NetworkError] None
         (scripted (\<lambda>i. if i < 2 then Inl NetworkError else Inr (7::nat))) world0) = Inr 7
   \<and> invocations (snd (retry_with_backoff 3 1 60 2 True [NetworkError] None
         (scripted (\<lambda>i. if i < 2 then Inl NetworkError else Inr (7::nat))) world0)) = 3
   \<and> fst (retry_with_backoff 3 1 60 2 True [NetworkError] None
         (scripted (\<lambda>i. Inl NetworkError :: exc + nat)) world0) = Inl NetworkError
   \<and> invocations (snd (retry_with_backoff 3 1 60 2 True [NetworkError] None
         (scripted (\<lambda>i. Inl NetworkError :: exc + nat)) world0)) = 3
   \<and> fst (retry_with_backoff 3 1 60 2 True [NetworkError] None
         (scripted (\<lambda>i. if i < 1 then Inl NetworkError else Inl AuthError :: exc + nat)) world0)
       = Inl AuthError
   \<and> invocations (snd (retry_with_backoff 3 1 60 2 True [NetworkError] None
         (scripted (\<lambda>i. if i < 1 then Inl NetworkError else Inl AuthError :: exc + nat)) world0))
       = 2"
proof -
  have ne: "\<not> isinstance AuthError NetworkError"
    by (simp add: isinstance_def)
  have valid: "delays_valid 3 1 60 2"
    by (simp add: delays_valid_def)
  show ?thesis
    using retry_with_backoff_contract
            [where k = 2 and M = 3 and w = world0 and excs = "[NetworkError]" and v = 7
               and script = "\<lambda>i. if i < 2 then Inl NetworkError else Inr (7::nat)"
               and b = 1 and m = 60 and f = 2 and jit = True, OF valid]
          retry_with_backoff_contract
            [where M = 3 and w = world0 and excs = "[NetworkError]"
               and script = "\<lambda>i. Inl NetworkError :: exc + nat"
               and b = 1 and m = 60 and f = 2 and jit = True, OF valid]
          retry_with_backoff_contract
            [where k = 1 and M = 3 and w = world0 and excs = "[NetworkError]" and x = AuthError
               and script = "\<lambda>i. if i < 1 then Inl NetworkError else Inl AuthError :: exc + nat"
               and b = 1 and m = 60 and f = 2 and jit = True, OF valid]
          ne
    by simp
qed

text \<open>Outside such policies the wrapper leaves with the exception of the pause: a
  negative delay makes \<open>time.sleep\<close> raise after the first failure, and a factor whose
  power overflows raises before any sleep.\<close>

lemma negative_base_delay_raises:
  "retry_with_backoff 3 (- 1) 60 2 False [NetworkError] None
     (scripted (\<lambda>i. if i < 1 then Inl NetworkError else Inr (7::nat))) world0
   = (Inl ValueError, world0\<lparr>trace := [Invoked]\<rparr>)"
  unfolding retry_with_backoff_def
  by (subst retry_loop.simps)
     (simp add: scripted_def backoff_pause_def float_pow_def time_sleep_def Let_def world0_def
        invocations_def)

lemma overflowing_factor_raises:
  "fst (backoff_pause 1 60 (2 ^ 600) False None 2 NetworkError w) = Some OverflowError"
  by (simp add: backoff_pause_def float_pow_def)

section \<open>Properties of the circuit breaker\<close>

lemma cb_inv_init: "cb_inv (CircuitBreaker_init th tmo ex)"
  by (simp add: cb_inv_def CircuitBreaker_init_def)

lemma cb_inv_on_success: "cb_inv (on_success cb)"
  by (simp add: cb_inv_def on_success_def)

lemma cb_inv_reset: "cb_inv (reset cb)"
  by (simp add: cb_inv_def reset_def)

lemma cb_inv_on_failure: "cb_inv cb \<Longrightarrow> cb_inv (on_failure cb w)"
  by (auto simp: cb_inv_def on_failure_def Let_def)

lemma cb_inv_half_open:
  "cb_inv cb \<Longrightarrow> state cb = OPEN \<Longrightarrow> cb_inv (cb\<lparr>state := HALF_OPEN\<rparr>)"
  by (simp add: cb_inv_def)

lemma cb_inv_guarded_call:
  "cb_inv cb \<Longrightarrow> cb_inv (fst (snd (guarded_call cb func w)))"
  by (auto simp: guarded_call_def cb_inv_on_success cb_inv_on_failure
           split: prod.splits sum.splits)

lemma cb_inv_call:
  "cb_inv cb \<Longrightarrow> cb_inv (fst (snd (call_with_circuit_breaker cb func w)))"
  by (simp add: call_with_circuit_breaker_def cb_inv_guarded_call cb_inv_half_open)

lemma call_open_rejects:
  assumes "state cb = OPEN" and "last_failure_time cb = Some t"
    and "now w - t < of_int (recovery_timeout cb)"
  shows "call_with_circuit_breaker cb func w = (Inl CircuitBreakerError, cb, w)"
  using assms by (simp add: call_with_circuit_breaker_def should_attempt_reset_def)

lemma call_closed_success:
  assumes "state cb = CLOSED" and "func w = (Inr v, w')"
  shows "call_with_circuit_breaker cb func w = (Inr v, cb\<lparr>failure_count := 0\<rparr>, w')"
  using assms by (simp add: call_with_circuit_breaker_def guarded_call_def on_success_def)

lemma call_closed_failure:
  assumes "state cb = CLOSED" and "func w = (Inl e, w')"
    and "isinstance e (expected_exception cb)"
  shows "call_with_circuit_breaker cb func w =
           (Inl e,
            cb\<lparr>failure_count := failure_count cb + 1, last_failure_time := Some (now w'),
               state := (if failure_threshold cb \<le> failure_count cb + 1 then OPEN else CLOSED)\<rparr>,
            w')"
  using assms
  by (simp add: call_with_circuit_breaker_def guarded_call_def on_failure_def Let_def)

lemma call_probe_success:
  assumes "state cb = OPEN" and "last_failure_time cb = Some t"
    and "of_int (recovery_timeout cb) \<le> now w - t" and "func w = (Inr v, w')"
  shows "call_with_circuit_breaker cb func w =
           (Inr v, cb\<lparr>failure_count := 0, state := CLOSED\<rparr>, w')"
  using assms
  by (simp add: call_with_circuit_breaker_def should_attempt_reset_def guarded_call_def
        on_success_def)

lemma call_probe_failure:
  assumes "cb_inv cb" and "state cb = OPEN" and "last_failure_time cb = Some t"
    and "of_int (recovery_timeout cb) \<le> now w - t" and "func w = (Inl e, w')"
    and "isinstance e (expected_exception cb)"
  shows "call_with_circuit_breaker cb func w =
           (Inl e,
            cb\<lparr>failure_count := failure_count cb + 1, last_failure_time := Some (now w'),
               state := OPEN\<rparr>,
            w')"
  using assms
  by (simp add: call_with_circuit_breaker_def should_attempt_reset_def guarded_call_def
        on_failure_def Let_def cb_inv_def)

text \<open>C3. The breaker follows the state machine: a new breaker is closed with counter 0;
  in the closed state a call passes through, a success sets the counter to zero and a
  failure with the expected exception adds one to it, records the failure time and opens
  the breaker when the counter reaches the threshold; in the open state, while the
  cooldown since the last failure has not elapsed, a call raises \<open>CircuitBreakerError\<close>
  and neither runs the operation nor changes anything; once the cooldown has elapsed the
  call goes through as a probe, whose success closes the breaker with the counter at zero
  and whose failure leaves it open with the failure time set anew.\<close>

theorem circuit_breaker_state_machine:
  fixes func :: "world \<Rightarrow> (exc + 'a) \<times> world"
  shows
    "cb_inv (CircuitBreaker_init th tmo ex)
     \<and> state (CircuitBreaker_init th tmo ex) = CLOSED
     \<and> failure_count (CircuitBreaker_init th tmo ex) = 0
     \<and> (cb_inv cb \<longrightarrow> cb_inv (fst (snd (call_with_circuit_breaker cb func w))))
     \<and> (state cb = CLOSED \<and> func w = (Inr v, w') \<longrightarrow>
          call_with_circuit_breaker cb func w = (Inr v, cb\<lparr>failure_count := 0\<rparr>, w'))
     \<and> (state cb = CLOSED \<and> func w = (Inl e, w') \<and> isinstance e (expected_exception cb) \<longrightarrow>
          call_with_circuit_breaker cb func w =
            (Inl e,
             cb\<lparr>failure_count := failure_count cb + 1, last_failure_time := Some (now w'),
                state := (if failure_threshold cb \<le> failure_count cb + 1 then OPEN else CLOSED)\<rparr>,
             w'))
     \<and> (state cb = OPEN \<and> last_failure_time cb = Some t
          \<and> now w - t < of_int (recovery_timeout cb) \<longrightarrow>
          call_with_circuit_breaker cb func w = (Inl CircuitBreakerError, cb, w))
     \<and> (state cb = OPEN \<and> last_failure_time cb = Some t
          \<and> of_int (recovery_timeout cb) \<le> now w - t \<and> func w = (Inr v, w') \<longrightarrow>
          call_with_circuit_breaker cb func w =
            (Inr v, cb\<lparr>failure_count := 0, state := CLOSED\<rparr>, w'))
     \<and> (cb_inv cb \<and> state cb = OPEN \<and> last_failure_time cb = Some t
          \<and> of_int (recovery_timeout cb) \<le> now w - t \<and> func w = (Inl e, w')
          \<and> isinstance e (expected_exception cb) \<longrightarrow>
          call_with_circuit_breaker cb func w =
            (Inl e,
             cb\<lparr>failure_count := failure_count cb + 1, last_failure_time := Some (now w'),
                state := OPEN\<rparr>,
             w'))"
proof (intro conjI impI)
  show "cb_inv (CircuitBreaker_init th tmo ex)"
    by (rule cb_inv_init)
  show "state (CircuitBreaker_init th tmo ex) = CLOSED"
    by (simp add: CircuitBreaker_init_def)
  show "failure_count (CircuitBreaker_init th tmo ex) = 0"
    by (simp add: CircuitBreaker_init_def)
  show "cb_inv (fst (snd (call_with_circuit_breaker cb func w)))" if "cb_inv cb"
    using that by (rule cb_inv_call)
  show "call_with_circuit_breaker cb func w = (Inr v, cb\<lparr>failure_count := 0\<rparr>, w')"
    if "state cb = CLOSED \<and> func w = (Inr v, w')"
    using that by (simp add: call_closed_success)
  show "call_with_circuit_breaker cb func w =
          (Inl e,
           cb\<lparr>failure_count := failure_count cb + 1, last_failure_time := Some (now w'),
              state := (if failure_threshold cb \<le> failure_count cb + 1 then OPEN else CLOSED)\<rparr>,
           w')"
    if "state cb = CLOSED \<and> func w = (Inl e, w') \<and> isinstance e (expected_exception cb)"
    using that call_closed_failure [of cb func w e w'] by blast
  show "call_with_circuit_breaker cb func w = (Inl CircuitBreakerError, cb, w)"
    if "state cb = OPEN \<and> last_failure_time cb = Some t
        \<and> now w - t < of_int (recovery_timeout cb)"
    using that call_open_rejects [of cb t w func] by blast
  show "call_with_circuit_breaker cb func w =
          (Inr v, cb\<lparr>failure_count := 0, state := CLOSED\<rparr>, w')"
    if "state cb = OPEN \<and> last_failure_time cb = Some t
        \<and> of_int (recovery_timeout cb) \<le> now w - t \<and> func w = (Inr v, w')"
    using that call_probe_success [of cb t w func v w'] by blast
  show "call_with_circuit_breaker cb func w =
          (Inl e,
           cb\<lparr>failure_count := failure_count cb + 1, last_failure_time := Some (now w'),
              state := OPEN\<rparr>,
           w')"
    if "cb_inv cb \<and> state cb = OPEN \<and> last_failure_time cb = Some t
        \<and> of_int (recovery_timeout cb) \<le> now w - t \<and> func w = (Inl e, w')
        \<and> isinstance e (expected_exception cb)"
    using that call_probe_failure [of cb t w func e w'] by blast
qed

theorem circuit_breaker_state_machine_witness:
  "cb_inv (fst (snd (call_with_circuit_breaker breaker_open
       (scripted (\<lambda>i. Inl NetworkError :: exc + nat)) world_late)))
   \<and> call_with_circuit_breaker (CircuitBreaker_init 5 60 NetworkError)
       (scripted (\<lambda>i. Inr (7::nat))) world0
     = (Inr 7, (CircuitBreaker_init 5 60 NetworkError)\<lparr>failure_count := 0\<rparr>,
        world0\<lparr>trace := [Invoked]\<rparr>)
   \<and> call_with_circuit_breaker (CircuitBreaker_init 1 60 NetworkError)
       (scripted (\<lambda>i. Inl NetworkError :: exc + nat)) world0
     = (Inl NetworkError,
        (CircuitBreaker_init 1 60 NetworkError)
          \<lparr>failure_count := 1, last_failure_time := Some 1, state := OPEN\<rparr>,
        world0\<lparr>trace := [Invoked]\<rparr>)
   \<and> call_with_circuit_breaker breaker_open (scripted (\<lambda>i. Inr (7::nat))) world0
     = (Inl CircuitBreakerError, breaker_open, world0)
   \<and> call_with_circuit_breaker breaker_open (scripted (\<lambda>i. Inr (7::nat))) world_late
     = (Inr 7, breaker_open\<lparr>failure_count := 0, state := CLOSED\<rparr>,
        world_late\<lparr>trace := [Invoked]\<rparr>)
   \<and> call_with_circuit_breaker breaker_open
       (scripted (\<lambda>i. Inl NetworkError :: exc + nat)) world_late
     = (Inl NetworkError,
        breaker_open\<lparr>failure_count := 6, last_failure_time := Some 100, state := OPEN\<rparr>,
        world_late\<lparr>trace := [Invoked]\<rparr>)"
proof -
  have inv: "cb_inv breaker_open"
    by (simp add: cb_inv_def breaker_open_def CircuitBreaker_init_def)
  have ok0: "scripted (\<lambda>i. Inr (7::nat)) world0 = (Inr 7, world0\<lparr>trace := [Invoked]\<rparr>)"
    by (simp add: scripted_def world0_def)
  have ko0: "scripted (\<lambda>i. Inl NetworkError :: exc + nat) world0
             = (Inl NetworkError, world0\<lparr>trace := [Invoked]\<rparr>)"
    by (simp add: scripted_def world0_def)
  have okl: "scripted (\<lambda>i. Inr (7::nat)) world_late = (Inr 7, world_late\<lparr>trace := [Invoked]\<rparr>)"
    by (simp add: scripted_def world0_def world_late_def)
  have kol: "scripted (\<lambda>i. Inl NetworkError :: exc + nat) world_late
             = (Inl NetworkError, world_late\<lparr>trace := [Invoked]\<rparr>)"
    by (simp add: scripted_def world0_def world_late_def)
  have n0: "now world0 = 0" "now (world0\<lparr>trace := [Invoked]\<rparr>) = 1"
    by (simp_all add: now_def world0_def)
  have nl: "now world_late = 100" "now (world_late\<lparr>trace := [Invoked]\<rparr>) = 100"
    by (simp_all add: now_def world0_def world_late_def)
  have bo: "state breaker_open = OPEN" "last_failure_time breaker_open = Some 0"
      "recovery_timeout breaker_open = 60" "expected_exception breaker_open = NetworkError"
      "failure_count breaker_open = 5"
    by (simp_all add: breaker_open_def CircuitBreaker_init_def)
  have init: "state (CircuitBreaker_init th 60 NetworkError) = CLOSED"
      "expected_exception (CircuitBreaker_init th 60 NetworkError) = NetworkError"
      "failure_count (CircuitBreaker_init th 60 NetworkError) = 0"
      "failure_threshold (CircuitBreaker_init th 60 NetworkError) = th" for th
    by (simp_all add: CircuitBreaker_init_def)
  note T = circuit_breaker_state_machine
  show ?thesis
    using inv
      T [where cb = breaker_open and w = world_late
           and func = "scripted (\<lambda>i. Inl NetworkError :: exc + nat)"
           and e = NetworkError and w' = "world_late\<lparr>trace := [Invoked]\<rparr>" and t = 0]
      T [where cb = "CircuitBreaker_init 5 60 NetworkError" and w = world0
           and func = "scripted (\<lambda>i. Inr (7::nat))" and v = 7
           and w' = "world0\<lparr>trace := [Invoked]\<rparr>"]
      T [where cb = "CircuitBreaker_init 1 60 NetworkError" and w = world0
           and func = "scripted (\<lambda>i. Inl NetworkError :: exc + nat)" and e = NetworkError
           and w' = "world0\<lparr>trace := [Invoked]\<rparr>"]
      T [where cb = breaker_open and w = world0
           and func = "scripted (\<lambda>i. Inr (7::nat))" and t = 0]
      T [where cb = breaker_open and w = world_late
           and func = "scripted (\<lambda>i. Inr (7::nat))" and v = 7 and t = 0
           and w' = "world_late\<lparr>trace := [Invoked]\<rparr>"]
    by (simp add: ok0 ko0 okl kol n0 nl bo init cb_inv_def)
qed

section \<open>The breaker around the retried request\<close>

text \<open>C7. \<open>read_book\<close> is the breaker around the retry-decorated \<open>post_json\<close>; with the
  breaker open and the cooldown not elapsed it raises \<open>CircuitBreakerError\<close> and leaves
  the breaker and the world as they were: the trace gains no request and no sleep.\<close>

theorem read_book_open_circuit_short_circuits:
  "read_book cb data w =
     call_with_circuit_breaker cb
       (retry_with_backoff 3 1 60 2 True [NetworkError] None (post_json_body ReadUrl data)) w
   \<and> (state cb = OPEN \<and> last_failure_time cb = Some t
        \<and> now w - t < of_int (recovery_timeout cb) \<longrightarrow>
        read_book cb data w = (Inl CircuitBreakerError, cb, w)
        \<and> trace (snd (snd (read_book cb data w))) = trace w)"
proof (intro conjI impI)
  show "read_book cb data w =
     call_with_circuit_breaker cb
       (retry_with_backoff 3 1 60 2 True [NetworkError] None (post_json_body ReadUrl data)) w"
    by (simp add: read_book_def post_json_def)
  assume a: "state cb = OPEN \<and> last_failure_time cb = Some t
        \<and> now w - t < of_int (recovery_timeout cb)"
  then show r: "read_book cb data w = (Inl CircuitBreakerError, cb, w)"
    unfolding read_book_def using call_open_rejects [of cb t w] by blast
  show "trace (snd (snd (read_book cb data w))) = trace w"
    by (simp add: r)
qed

theorem read_book_open_circuit_short_circuits_witness:
  "read_book breaker_open [] world0 = (Inl CircuitBreakerError, breaker_open, world0)
   \<and> trace (snd (snd (read_book breaker_open [] world0))) = []"
proof -
  have h: "state breaker_open = OPEN \<and> last_failure_time breaker_open = Some 0
        \<and> now world0 - 0 < of_int (recovery_timeout breaker_open)"
    by (simp add: now_def world0_def breaker_open_def CircuitBreaker_init_def)
  have "read_book breaker_open [] world0 = (Inl CircuitBreakerError, breaker_open, world0)
        \<and> trace (snd (snd (read_book breaker_open [] world0))) = trace world0"
    using read_book_open_circuit_short_circuits
            [where cb = breaker_open and w = world0 and t = 0 and data = "[]",
             THEN conjunct2, THEN mp, OF h] .
  then show ?thesis
    by (simp add: world0_def)
qed

section \<open>Properties of \<open>create_request_data\<close>\<close>

lemma setitem_top:
  "setitem (length h) k v (w\<lparr>heap := h @ [d]\<rparr>) = w\<lparr>heap := h @ [AList.update k v d]\<rparr>"
  by (simp add: setitem_def)

lemma pop_top:
  "pop (length h) k (w\<lparr>heap := h @ [d]\<rparr>) = w\<lparr>heap := h @ [AList.delete k d]\<rparr>"
  by (simp add: pop_def)

lemma randint_heap:
  "randint a b (w\<lparr>heap := H\<rparr>) = (fst (randint a b w), (snd (randint a b w))\<lparr>heap := H\<rparr>)"
  by (simp add: randint_def random_draw_def)

lemma randint_snd: "snd (randint a b w) = w\<lparr>draws := Suc (draws w)\<rparr>"
  by (simp add: randint_def random_draw_def)

lemma now_heap [simp]: "now (w\<lparr>heap := H\<rparr>) = now w"
  by (simp add: now_def)

lemma now_draws [simp]: "now (w\<lparr>draws := n\<rparr>) = now w"
  by (simp add: now_def)

lemma generate_timestamp_heap:
  "generate_timestamp (w\<lparr>heap := H\<rparr>) =
     ((int_of_float (now w), (int_of_float (now w)) * 1000 + fst (randint 0 1000 w)),
      (snd (randint 0 1000 w))\<lparr>heap := H\<rparr>)"
  by (simp add: generate_timestamp_def generate_random_number_def randint_heap Let_def)

lemma generate_random_number_heap:
  "generate_random_number a b (w\<lparr>heap := H\<rparr>) =
     (fst (randint a b w), (snd (randint a b w))\<lparr>heap := H\<rparr>)"
  by (simp add: generate_random_number_def randint_heap)

lemma create_request_data_closed_form:
  assumes "base < length (heap w)"
  shows "create_request_data sha256 base book_id chapter_id last_time w =
     (let P = unsigned_payload sha256 (heap w ! base) book_id chapter_id last_time w;
          w' = snd (randint 0 1000 (snd (randint 0 1000 w)))
      in case encode_data P of
           Inl e \<Rightarrow> (Inl e, w'\<lparr>heap := heap w @ [P]\<rparr>)
         | Inr encoded_data \<Rightarrow>
             (Inr (length (heap w)),
              w'\<lparr>heap := heap w @ [AList.update (py ''s'') (PStr (spec_hash encoded_data)) P]\<rparr>))"
proof -
  have c: "dict_copy base w = (length (heap w), w\<lparr>heap := heap w @ [heap w ! base]\<rparr>)"
    by (simp add: dict_copy_def)
  show ?thesis
    unfolding create_request_data_def c
    by (simp only: Let_def prod.case pop_top setitem_top generate_timestamp_heap
          generate_random_number_heap fst_conv snd_conv)
       (simp add: unsigned_payload_def Let_def calculate_hash_eq_spec split: sum.split)
qed

lemma py_s_fresh:
  "py ''s'' \<noteq> py ''b''" "py ''s'' \<noteq> py ''c''" "py ''s'' \<noteq> py ''ct''" "py ''s'' \<noteq> py ''ts''"
  "py ''s'' \<noteq> py ''rt''" "py ''s'' \<noteq> py ''rn''" "py ''s'' \<noteq> py ''sg''"
  by (simp_all add: py_def)

lemma py_b_c_distinct:
  "py ''b'' \<noteq> py ''c''" "py ''b'' \<noteq> py ''ct''" "py ''b'' \<noteq> py ''ts''" "py ''b'' \<noteq> py ''rt''"
  "py ''b'' \<noteq> py ''rn''" "py ''b'' \<noteq> py ''sg''" "py ''b'' \<noteq> py ''s''"
  "py ''c'' \<noteq> py ''ct''" "py ''c'' \<noteq> py ''ts''" "py ''c'' \<noteq> py ''rt''" "py ''c'' \<noteq> py ''rn''"
  "py ''c'' \<noteq> py ''sg''" "py ''c'' \<noteq> py ''s''"
  by (simp_all add: py_def)

lemma unsigned_payload_no_s:
  "py ''s'' \<notin> fst ` set (unsigned_payload sha256 base book_id chapter_id last_time w)"
  by (simp add: unsigned_payload_def Let_def AList.dom_update AList.delete_notin_dom py_s_fresh)

lemma unsigned_payload_b_c:
  "map_of (unsigned_payload sha256 base book_id chapter_id last_time w) (py ''b'') = Some (PStr book_id)"
  "map_of (unsigned_payload sha256 base book_id chapter_id last_time w) (py ''c'') = Some (PStr chapter_id)"
  by (simp_all add: unsigned_payload_def Let_def AList.update_conv' py_b_c_distinct)

lemma unsigned_payload_ignores_s:
  "unsigned_payload sha256 (AList.update (py ''s'') v base) book_id chapter_id last_time w
   = unsigned_payload sha256 base book_id chapter_id last_time w"
  by (simp add: unsigned_payload_def AList.delete_update_same)

lemma unsigned_payload_world:
  "unsigned_payload sha256 base book_id chapter_id last_time (w\<lparr>heap := H\<rparr>)
   = unsigned_payload sha256 base book_id chapter_id last_time w"
  by (simp add: unsigned_payload_def randint_heap)

lemma signed_payload:
  assumes "py ''s'' \<notin> fst ` set P"
  shows "AList.delete (py ''s'') (AList.update (py ''s'') v P) = P"
    and "map_of (AList.update (py ''s'') v P) (py ''s'') = Some v"
    and "k \<noteq> py ''s'' \<Longrightarrow> map_of (AList.update (py ''s'') v P) k = map_of P k"
  using assms by (simp_all add: AList.delete_update_same AList.update_conv')

text \<open>C8. \<open>create_request_data\<close> works on a copy: every object that was on the heap,
  the template \<open>base\<close> among them, is left as it was, whether the function returns
  or raises. When it returns, the payload is a new object with \<open>b\<close> the book id and
  \<open>c\<close> the chapter id, and its \<open>s\<close> is the hash of the serialization of the other
  fields; an \<open>s\<close> entry of the template has no influence on the result.\<close>

theorem create_request_data_frame:
  fixes sha256 :: "pystr \<Rightarrow> pystr" and base :: nat and book_id chapter_id :: pystr
    and last_time :: int and w :: world
  defines "r \<equiv> create_request_data sha256 base book_id chapter_id last_time w"
  assumes live: "base < length (heap w)"
  shows "take (length (heap w)) (heap (snd r)) = heap w
    \<and> heap (snd r) ! base = heap w ! base
    \<and> (\<forall>data. fst r = Inr data \<longrightarrow>
          data = length (heap w) \<and> data \<noteq> base
          \<and> map_of (heap (snd r) ! data) (py ''b'') = Some (PStr book_id)
          \<and> map_of (heap (snd r) ! data) (py ''c'') = Some (PStr chapter_id)
          \<and> (\<exists>encoded_data.
                encode_data (AList.delete (py ''s'') (heap (snd r) ! data)) = Inr encoded_data
                \<and> calculate_hash encoded_data = Inr (spec_hash encoded_data)
                \<and> map_of (heap (snd r) ! data) (py ''s'') = Some (PStr (spec_hash encoded_data))))
    \<and> (\<forall>v. fst (create_request_data sha256 base book_id chapter_id last_time
                  (w\<lparr>heap := (heap w)[base := AList.update (py ''s'') v (heap w ! base)]\<rparr>))
             = fst r
           \<and> heap (snd (create_request_data sha256 base book_id chapter_id last_time
                  (w\<lparr>heap := (heap w)[base := AList.update (py ''s'') v (heap w ! base)]\<rparr>)))
               ! length (heap w)
             = heap (snd r) ! length (heap w))"
proof -
  define P where "P = unsigned_payload sha256 (heap w ! base) book_id chapter_id last_time w"
  define w' where "w' = snd (randint 0 1000 (snd (randint 0 1000 w)))"
  have nos: "py ''s'' \<notin> fst ` set P"
    unfolding P_def by (rule unsigned_payload_no_s)
  have r: "r = (case encode_data P of
           Inl e \<Rightarrow> (Inl e, w'\<lparr>heap := heap w @ [P]\<rparr>)
         | Inr encoded_data \<Rightarrow>
             (Inr (length (heap w)),
              w'\<lparr>heap := heap w @ [AList.update (py ''s'') (PStr (spec_hash encoded_data)) P]\<rparr>))"
    unfolding r_def P_def w'_def
    using create_request_data_closed_form [OF live, of sha256 book_id chapter_id last_time]
    by (simp add: Let_def)
  have frame: "take (length (heap w)) (heap (snd r)) = heap w"
    by (simp add: r split: sum.split)
  have base: "heap (snd r) ! base = heap w ! base"
    using live by (simp add: r nth_append split: sum.split)
  have payload: "data = length (heap w) \<and> data \<noteq> base
          \<and> map_of (heap (snd r) ! data) (py ''b'') = Some (PStr book_id)
          \<and> map_of (heap (snd r) ! data) (py ''c'') = Some (PStr chapter_id)
          \<and> (\<exists>encoded_data.
                encode_data (AList.delete (py ''s'') (heap (snd r) ! data)) = Inr encoded_data
                \<and> calculate_hash encoded_data = Inr (spec_hash encoded_data)
                \<and> map_of (heap (snd r) ! data) (py ''s'') = Some (PStr (spec_hash encoded_data)))"
    if "fst r = Inr data" for data
  proof (cases "encode_data P")
    case (Inl e)
    then show ?thesis using that by (simp add: r)
  next
    case (Inr enc)
    then have d: "data = length (heap w)"
      using that by (simp add: r)
    have h: "heap (snd r) ! data = AList.update (py ''s'') (PStr (spec_hash enc)) P"
      using Inr by (simp add: r d)
    have bc: "map_of P (py ''b'') = Some (PStr book_id)" "map_of P (py ''c'') = Some (PStr chapter_id)"
      unfolding P_def by (rule unsigned_payload_b_c)+
    show ?thesis
      using d live Inr bc
      by (simp add: h [unfolded d] signed_payload [OF nos] py_b_c_distinct calculate_hash_eq_spec)
  qed
  have indep: "fst (create_request_data sha256 base book_id chapter_id last_time
                  (w\<lparr>heap := (heap w)[base := AList.update (py ''s'') v (heap w ! base)]\<rparr>))
             = fst r
           \<and> heap (snd (create_request_data sha256 base book_id chapter_id last_time
                  (w\<lparr>heap := (heap w)[base := AList.update (py ''s'') v (heap w ! base)]\<rparr>)))
               ! length (heap w)
             = heap (snd r) ! length (heap w)" for v
  proof -
    let ?w = "w\<lparr>heap := (heap w)[base := AList.update (py ''s'') v (heap w ! base)]\<rparr>"
    have l: "base < length (heap ?w)" "length (heap ?w) = length (heap w)"
      using live by simp_all
    have P': "unsigned_payload sha256 (heap ?w ! base) book_id chapter_id last_time ?w = P"
      using live by (simp add: P_def unsigned_payload_world unsigned_payload_ignores_s)
    have cf: "create_request_data sha256 base book_id chapter_id last_time ?w =
        (case encode_data P of
           Inl e \<Rightarrow> (Inl e, (snd (randint 0 1000 (snd (randint 0 1000 ?w))))\<lparr>heap := heap ?w @ [P]\<rparr>)
         | Inr encoded_data \<Rightarrow>
             (Inr (length (heap ?w)),
              (snd (randint 0 1000 (snd (randint 0 1000 ?w))))
                \<lparr>heap := heap ?w @ [AList.update (py ''s'') (PStr (spec_hash encoded_data)) P]\<rparr>))"
      using create_request_data_closed_form [OF l(1), of sha256 book_id chapter_id last_time]
      unfolding Let_def P' .
    show ?thesis
      unfolding cf r by (cases "encode_data P") (simp_all add: nth_append)
  qed
  show ?thesis
    using frame base payload indep by blast
qed

lemma create_request_data_returns:
  assumes "base < length (heap w)"
    and "\<not> isl (encode_data
           (unsigned_payload sha256 (heap w ! base) book_id chapter_id last_time w))"
  shows "fst (create_request_data sha256 base book_id chapter_id last_time w)
         = Inr (length (heap w))"
  using assms(2) unfolding create_request_data_closed_form [OF assms(1)] Let_def
  by (cases "encode_data
           (unsigned_payload sha256 (heap w ! base) book_id chapter_id last_time w)")
     simp_all

theorem create_request_data_frame_witness:
  "fst (create_request_data (\<lambda>s. py ''00'') 0 (py ''book'') (py ''chap'') 0 template_world)
     = Inr 1
   \<and> heap (snd (create_request_data (\<lambda>s. py ''00'') 0 (py ''book'') (py ''chap'') 0
         template_world)) ! 0
     = [(py ''appId'', PStr (py ''wb182564874603h266381671'')), (py ''s'', PStr (py ''old'')),
        (py ''b'', PStr (py ''x'')), (py ''ci'', PInt 27)]
   \<and> map_of (heap (snd (create_request_data (\<lambda>s. py ''00'') 0 (py ''book'') (py ''chap'') 0
         template_world)) ! 1) (py ''b'')
     = Some (PStr (py ''book''))
   \<and> map_of (heap (snd (create_request_data (\<lambda>s. py ''00'') 0 (py ''book'') (py ''chap'') 0
         template_world)) ! 1) (py ''c'')
     = Some (PStr (py ''chap''))"
proof -
  have live: "0 < length (heap template_world)"
    by (simp add: template_world_def)
  have len: "length (heap template_world) = 1"
    by (simp add: template_world_def)
  have base: "heap template_world ! 0
     = [(py ''appId'', PStr (py ''wb182564874603h266381671'')), (py ''s'', PStr (py ''old'')),
        (py ''b'', PStr (py ''x'')), (py ''ci'', PInt 27)]"
    by (simp add: template_world_def)
  have "\<not> isl (encode_data (unsigned_payload (\<lambda>s. py ''00'') (heap template_world ! 0)
           (py ''book'') (py ''chap'') 0 template_world))"
    by code_simp
  then have ret: "fst (create_request_data (\<lambda>s. py ''00'') 0 (py ''book'') (py ''chap'') 0
      template_world) = Inr 1"
    using create_request_data_returns [OF live] len by simp
  note T = create_request_data_frame [OF live, of "\<lambda>s. py ''00''" "py ''book''" "py ''chap''" 0]
  have f: "heap (snd (create_request_data (\<lambda>s. py ''00'') 0 (py ''book'') (py ''chap'') 0
         template_world)) ! 0 = heap template_world ! 0"
    using T by blast
  have b: "map_of (heap (snd (create_request_data (\<lambda>s. py ''00'') 0 (py ''book'') (py ''chap'') 0
         template_world)) ! 1) (py ''b'') = Some (PStr (py ''book''))"
    using T ret by blast
  have c: "map_of (heap (snd (create_request_data (\<lambda>s. py ''00'') 0 (py ''book'') (py ''chap'') 0
         template_world)) ! 1) (py ''c'') = Some (PStr (py ''chap''))"
    using T ret by blast
  show ?thesis
    using ret f b c unfolding base by (intro conjI)
qed

section \<open>What the network operations leave alone\<close>

lemma session_post_obs:
  assumes "\<And>w t. obs (w\<lparr>trace := t\<rparr>) = obs w"
  shows "obs (snd (session_post url w)) = obs w"
  by (simp add: session_post_def assms)

lemma post_json_body_obs:
  assumes "\<And>w t. obs (w\<lparr>trace := t\<rparr>) = obs w"
  shows "obs (snd (post_json_body url data w)) = obs w"
  by (simp add: post_json_body_def session_post_def assms
        split: prod.splits http_outcome.splits parsed.splits)

lemma backoff_pause_obs:
  assumes "\<And>w t. obs (w\<lparr>trace := t\<rparr>) = obs w" and "\<And>w d. obs (w\<lparr>draws := d\<rparr>) = obs w"
  shows "obs (snd (backoff_pause bd md f jit None attempt e w)) = obs w"
  by (simp add: backoff_pause_def Let_def time_sleep_def sleep_def random_random_def
        random_draw_def assms split: prod.splits sum.splits)

lemma retry_loop_obs:
  "(\<And>w. obs (snd (func w)) = obs w) \<Longrightarrow> (\<And>a e w. obs (snd (pause a e w)) = obs w) \<Longrightarrow>
   obs (snd (retry_loop M pause excs func attempt lst w)) = obs w"
proof (induction M pause excs func attempt lst w rule: retry_loop.induct)
  case (1 M pause excs func attempt lst w)
  obtain r w1 where f: "func w = (r, w1)" by (cases "func w")
  have w1: "obs w1 = obs w" using "1.prems"(1) [of w] f by simp
  show ?case
  proof (cases "attempt < M")
    case False
    then show ?thesis
      by (subst retry_loop.simps) (simp split: option.splits)
  next
    case True
    show ?thesis
    proof (cases r)
      case (Inr v)
      then show ?thesis using True f w1 by (subst retry_loop.simps) simp
    next
      case (Inl e)
      obtain p w2 where p: "pause attempt e w1 = (p, w2)" by (cases "pause attempt e w1")
      have w2: "obs w2 = obs w1" using "1.prems"(2) [of attempt e w1] p by simp
      show ?thesis
      proof (cases "caught_by e excs \<and> attempt \<noteq> M - 1 \<and> p = None")
        case False
        then show ?thesis using True f Inl p w1 w2
          by (subst retry_loop.simps) (auto split: option.splits)
      next
        case c: True
        have "obs (snd (retry_loop M pause excs func (attempt + 1) (Some e) w2)) = obs w2"
          using "1.IH" [OF True f [symmetric] Inl _ _ p [symmetric]] c "1.prems" by simp
        then show ?thesis using True f Inl p w1 w2 c
          by (subst retry_loop.simps) simp
      qed
    qed
  qed
qed

lemma post_json_obs:
  assumes "\<And>w t. obs (w\<lparr>trace := t\<rparr>) = obs w" and "\<And>w d. obs (w\<lparr>draws := d\<rparr>) = obs w"
  shows "obs (snd (post_json url data w)) = obs w"
  unfolding post_json_def retry_with_backoff_def
  by (rule retry_loop_obs) (simp_all add: post_json_body_obs backoff_pause_obs assms)

lemma call_with_circuit_breaker_obs:
  assumes "\<And>w. obs (snd (func w)) = obs w"
  shows "obs (snd (snd (call_with_circuit_breaker cb func w))) = obs w"
proof -
  have g: "obs (snd (snd (guarded_call c func w))) = obs w" for c
    using assms [of w] by (cases "func w") (auto simp: guarded_call_def split: sum.splits)
  show ?thesis
    by (simp add: call_with_circuit_breaker_def g)
qed

lemma read_book_obs:
  assumes "\<And>w t. obs (w\<lparr>trace := t\<rparr>) = obs w" and "\<And>w d. obs (w\<lparr>draws := d\<rparr>) = obs w"
  shows "obs (snd (snd (read_book cb data w))) = obs w"
  unfolding read_book_def
  by (rule call_with_circuit_breaker_obs) (rule post_json_obs [OF assms])

lemma read_book_heap: "heap (snd (snd (read_book cb data w))) = heap w"
  by (rule read_book_obs) simp_all

section \<open>Properties of \<open>read_once\<close> and of the reading loop\<close>

lemma py_ct_distinct:
  "py ''ct'' \<noteq> py ''ts''" "py ''ct'' \<noteq> py ''rt''" "py ''ct'' \<noteq> py ''rn''" "py ''ct'' \<noteq> py ''sg''"
  "py ''ct'' \<noteq> py ''s''"
  by (simp_all add: py_def)

lemma unsigned_payload_ct:
  "map_of (unsigned_payload sha256 base book_id chapter_id last_time w) (py ''ct'')
   = Some (PInt (int_of_float (now w)))"
  by (simp add: unsigned_payload_def Let_def AList.update_conv' py_ct_distinct)

lemma create_request_data_ct:
  assumes "base < length (heap w)"
    and "create_request_data sha256 base book_id chapter_id last_time w = (Inr data, w1)"
  shows "map_of (heap w1 ! data) (py ''ct'') = Some (PInt (int_of_float (now w)))"
proof -
  let ?P = "unsigned_payload sha256 (heap w ! base) book_id chapter_id last_time w"
  show ?thesis
  proof (cases "encode_data ?P")
    case (Inl e)
    then show ?thesis
      using assms(2) unfolding create_request_data_closed_form [OF assms(1)] Let_def by simp
  next
    case (Inr enc)
    then have "data = length (heap w)"
      and "heap w1 = heap w @ [AList.update (py ''s'') (PStr (spec_hash enc)) ?P]"
      using assms(2) unfolding create_request_data_closed_form [OF assms(1)] Let_def by auto
    then show ?thesis
      by (simp add: AList.update_conv' py_ct_distinct unsigned_payload_ct)
  qed
qed

lemma read_once_failure:
  assumes "fst (read_once sha256 b book_id chapter_id last_time w) = (False, t, err)"
  shows "t = last_time \<and> err \<noteq> None"
  using assms
  by (auto simp: read_once_def Let_def
      split: prod.splits sum.splits option.splits pyval.splits bool.splits if_splits)

lemma read_once_success:
  assumes "fst (read_once sha256 b book_id chapter_id last_time w) = (True, t, err)"
    and "base_data b < length (heap w)"
  shows "t = int_of_float (now w) \<and> err = None"
proof -
  obtain cr w1 where c: "create_request_data sha256 (base_data b) book_id chapter_id last_time w
      = (cr, w1)"
    by (cases "create_request_data sha256 (base_data b) book_id chapter_id last_time w")
  show ?thesis
  proof (cases cr)
    case (Inl e)
    then show ?thesis using assms(1) c by (simp add: read_once_def)
  next
    case (Inr data)
    obtain res cb w2 where rb: "read_book (circuit_breaker b) (heap w1 ! data) w1 = (res, cb, w2)"
      by (cases "read_book (circuit_breaker b) (heap w1 ! data) w1") auto
    have "heap w2 = heap w1"
      using read_book_heap [of "circuit_breaker b" "heap w1 ! data" w1] rb by simp
    then have ct: "map_of (heap w2 ! data) (py ''ct'') = Some (PInt (int_of_float (now w)))"
      using create_request_data_ct [OF assms(2)] c Inr by simp
    show ?thesis
      using assms(1) c Inr rb ct
      by (auto simp: read_once_def Let_def
          split: prod.splits sum.splits bool.splits if_splits)
  qed
qed

lemma random_choice_returns:
  "xs \<noteq> [] \<Longrightarrow> \<exists>x w1. random_choice xs w = (Inr x, w1) \<and> x \<in> set xs
     \<and> w1 = w\<lparr>draws := Suc (draws w)\<rparr>"
  by (simp add: random_choice_def random_draw_def)

lemma pick_and_read_returns:
  "\<exists>r b1 w1. pick_and_read sha256 last_time b w = (Inr r, b1, w1)"
proof -
  obtain book w1 where b: "random_choice book_ids w = (Inr book, w1)"
    using random_choice_returns [of book_ids w] by (auto simp: book_ids_def)
  obtain chap w2 where c: "random_choice chapter_ids w1 = (Inr chap, w2)"
    using random_choice_returns [of chapter_ids w1] by (auto simp: chapter_ids_def)
  show ?thesis
    by (simp add: pick_and_read_def b c split: prod.splits)
qed

lemma time_sleep_fixed:
  "time_sleep 30 w = (None, sleep 30 w)" "time_sleep 5 w = (None, sleep 5 w)"
  by (simp_all add: time_sleep_def)

lemma reading_loop_step:
  assumes "attempt < stop"
    and "pick_and_read sha256 last_time b w = (Inr (ok, t, err), b1, w1)"
  shows "reading_loop sha256 stop attempt count last_time b w =
           reading_loop sha256 stop (attempt + 1) (if ok then count + 1 else count)
             (if ok then t else last_time) b1 (sleep (if ok then 30 else 5) w1)"
  using assms by (simp add: reading_loop.simps [of sha256 stop attempt] time_sleep_fixed)

lemma reading_loop_done:
  "\<not> attempt < stop \<Longrightarrow>
   reading_loop sha256 stop attempt count last_time b w = (Inr (count, last_time), b, w)"
  by (simp add: reading_loop.simps [of sha256 stop attempt])

lemma attempt_results_step:
  assumes "attempt < stop"
    and "pick_and_read sha256 last_time b w = (Inr (ok, t, err), b1, w1)"
  shows "attempt_results sha256 stop attempt last_time b w =
           (ok, t, err) #
           attempt_results sha256 stop (attempt + 1) (if ok then t else last_time) b1
             (sleep (if ok then 30 else 5) w1)"
  using assms by (simp add: attempt_results.simps [of sha256 stop attempt] time_sleep_fixed)

lemma attempt_results_done:
  "\<not> attempt < stop \<Longrightarrow> attempt_results sha256 stop attempt last_time b w = []"
  by (simp add: attempt_results.simps [of sha256 stop attempt])

lemma reading_loop_results:
  "\<exists>b' w'. reading_loop sha256 stop attempt count last_time b w =
      (Inr (count + int (length (filter fst (attempt_results sha256 stop attempt last_time b w))),
            last_accepted last_time (attempt_results sha256 stop attempt last_time b w)),
       b', w')
    \<and> length (attempt_results sha256 stop attempt last_time b w) = nat (stop - attempt)"
proof (induction "nat (stop - attempt)" arbitrary: attempt count last_time b w)
  case 0
  then have "\<not> attempt < stop" by simp
  then show ?case
    by (simp add: reading_loop_done attempt_results_done)
next
  case (Suc n)
  then have lt: "attempt < stop" by simp
  obtain ok t err b1 w1 where p: "pick_and_read sha256 last_time b w = (Inr (ok, t, err), b1, w1)"
    using pick_and_read_returns [of sha256 last_time b w] by (metis prod_cases3)
  have n: "n = nat (stop - (attempt + 1))" using Suc.hyps(2) by simp
  let ?rest = "attempt_results sha256 stop (attempt + 1) (if ok then t else last_time) b1
                 (sleep (if ok then 30 else 5) w1)"
  obtain b' w' where
    l: "reading_loop sha256 stop (attempt + 1) (if ok then count + 1 else count)
          (if ok then t else last_time) b1 (sleep (if ok then 30 else 5) w1) =
        (Inr ((if ok then count + 1 else count) + int (length (filter fst ?rest)),
              last_accepted (if ok then t else last_time) ?rest), b', w')"
    and len: "length ?rest = nat (stop - (attempt + 1))"
    using Suc.hyps(1) [OF n] by blast
  have r: "attempt_results sha256 stop attempt last_time b w = (ok, t, err) # ?rest"
    using lt p by (rule attempt_results_step)
  have "reading_loop sha256 stop attempt count last_time b w =
        (Inr (count + int (length (filter fst ((ok, t, err) # ?rest))),
              last_accepted last_time ((ok, t, err) # ?rest)), b', w')"
    unfolding reading_loop_step [OF lt p] l by simp
  moreover have "length ((ok, t, err) # ?rest) = nat (stop - attempt)"
    using len lt by simp
  ultimately show ?case
    unfolding r by blast
qed

section \<open>When serialization cannot fail\<close>

lemma utf8_encode_ok: "text_ok s \<Longrightarrow> \<not> isl (utf8_encode s)"
proof (induction s)
  case Nil
  then show ?case by simp
next
  case (Cons c s)
  then have "c < 0xD800" and "\<not> isl (utf8_encode s)"
    by (simp_all add: text_ok_def)
  then show ?case
    by (cases "utf8_encode s") (auto simp: utf8_encode_char_def)
qed

lemma quote_ok: "text_ok s \<Longrightarrow> \<not> isl (quote s)"
  using utf8_encode_ok [of s] by (cases "utf8_encode s") (simp_all add: quote_def)

lemma decimal_digits_ok: "text_ok (decimal_digits n)"
proof (induction n rule: decimal_digits.induct)
  case (1 n)
  show ?case
  proof (cases "n < 10")
    case True
    then have "nat n < 10" by simp
    then show ?thesis using True
      by (simp add: decimal_digits.simps [of n] text_ok_def)
  next
    case False
    have "nat (n mod 10) < 10" by simp
    then show ?thesis using False "1.IH"
      by (simp add: decimal_digits.simps [of n] text_ok_def)
  qed
qed

lemma str_of_ok: "value_ok v \<Longrightarrow> text_ok (str_of v)"
  using decimal_digits_ok by (cases v) (auto simp: str_int_def text_ok_def)

lemma encode_pairs_ok:
  "dict_ok data \<Longrightarrow> set ks \<subseteq> fst ` set data \<Longrightarrow> \<not> isl (encode_pairs data ks)"
proof (induction ks)
  case Nil
  then show ?case by simp
next
  case (Cons k ks)
  then obtain v where v: "map_of data k = Some v"
    by (metis list.set_intros(1) subsetD weak_map_of_SomeI imageE prod.collapse)
  then have "(k, v) \<in> set data" by (rule map_of_SomeD)
  then have "value_ok v" using Cons.prems(1) by (auto simp: dict_ok_def list_all_iff)
  then have q: "\<not> isl (quote (str_of v))" by (simp add: quote_ok str_of_ok)
  have r: "\<not> isl (encode_pairs data ks)" using Cons by simp
  show ?case
    using v q r
    by (cases "quote (str_of v)"; cases "encode_pairs data ks") simp_all
qed

lemma encode_data_ok: "dict_ok data \<Longrightarrow> \<not> isl (encode_data data)"
proof -
  assume d: "dict_ok data"
  have "set (sort (keys data)) \<subseteq> fst ` set data"
    by (simp add: keys_def)
  then have "\<not> isl (encode_pairs data (sort (keys data)))"
    using d by (rule encode_pairs_ok [rotated])
  then show ?thesis
    by (cases "encode_pairs data (sort (keys data))") (simp_all add: encode_data_def)
qed

lemma dict_ok_update: "dict_ok data \<Longrightarrow> value_ok v \<Longrightarrow> dict_ok (AList.update k v data)"
  by (induction data) (auto simp: dict_ok_def)

lemma dict_ok_delete: "dict_ok data \<Longrightarrow> dict_ok (AList.delete k data)"
  by (induction data) (auto simp: dict_ok_def)

lemma unsigned_payload_ok:
  assumes "dict_ok base" "text_ok book_id" "text_ok chapter_id"
    and "\<And>s. text_ok (sha256 s)"
  shows "dict_ok (unsigned_payload sha256 base book_id chapter_id last_time w)"
  using assms
  by (simp add: unsigned_payload_def Let_def generate_signature_def dict_ok_update dict_ok_delete)

section \<open>Runs against a server that accepts everything\<close>

lemma post_json_body_accepted:
  assumes "net w = (\<lambda>n. Responded accepted)"
  shows "post_json_body url data w =
           (Inr (JDict [(py ''succ'', JInt 1), (py ''synckey'', JInt 123)]),
            w\<lparr>trace := trace w @ [Request url]\<rparr>)"
  using assms
  by (simp add: post_json_body_def session_post_def accepted_def raise_for_status_def)

lemma post_json_accepted:
  assumes "net w = (\<lambda>n. Responded accepted)"
  shows "post_json url data w =
           (Inr (JDict [(py ''succ'', JInt 1), (py ''synckey'', JInt 123)]),
            w\<lparr>trace := trace w @ [Request url]\<rparr>)"
  unfolding post_json_def retry_with_backoff_def
  by (subst retry_loop.simps) (simp add: post_json_body_accepted [OF assms])

lemma read_book_accepted:
  assumes "net w = (\<lambda>n. Responded accepted)" and "state cb = CLOSED"
  shows "read_book cb data w =
           (Inr (JDict [(py ''succ'', JInt 1), (py ''synckey'', JInt 123)]),
            cb\<lparr>failure_count := 0\<rparr>, w\<lparr>trace := trace w @ [Request ReadUrl]\<rparr>)"
  unfolding read_book_def
  by (rule call_closed_success) (simp_all add: assms post_json_accepted)

lemma accepted_body_valid:
  "validate_response (JDict [(py ''succ'', JInt 1), (py ''synckey'', JInt 123)])"
  "has_key (py ''synckey'') (JDict [(py ''succ'', JInt 1), (py ''synckey'', JInt 123)])"
  by (simp_all add: validate_response_def has_key_def py_def)

lemma create_request_data_world:
  assumes "base < length (heap w)"
    and "create_request_data sha256 base book_id chapter_id last_time w = (r, w1)"
  shows "net w1 = net w \<and> clock w1 = clock w \<and> trace w1 = trace w
         \<and> length (heap w) < length (heap w1) \<and> heap w1 ! base = heap w ! base"
  using assms(2) assms(1)
  unfolding create_request_data_closed_form [OF assms(1)] Let_def
  by (cases "encode_data (unsigned_payload sha256 (heap w ! base) book_id chapter_id last_time w)")
     (auto simp: randint_snd nth_append)

lemma read_once_ready:
  assumes "ready b w" and "text_ok book_id" and "text_ok chapter_id"
    and sha: "\<And>s. text_ok (sha256 s)"
  shows "\<exists>b1 w1. read_once sha256 b book_id chapter_id last_time w
            = ((True, int_of_float (now w), None), b1, w1) \<and> ready b1 w1
            \<and> read_num b1 = read_num b \<and> notification_enabled b1 = notification_enabled b"
proof -
  have live: "base_data b < length (heap w)" and ok: "dict_ok (heap w ! base_data b)"
    and net: "net w = (\<lambda>n. Responded accepted)" and st: "state (circuit_breaker b) = CLOSED"
    using assms(1) by (simp_all add: ready_def)
  have "dict_ok (unsigned_payload sha256 (heap w ! base_data b) book_id chapter_id last_time w)"
    using ok assms(2,3) sha by (rule unsigned_payload_ok)
  then have "\<not> isl (encode_data
      (unsigned_payload sha256 (heap w ! base_data b) book_id chapter_id last_time w))"
    by (rule encode_data_ok)
  then have "fst (create_request_data sha256 (base_data b) book_id chapter_id last_time w)
      = Inr (length (heap w))"
    using live by (simp add: create_request_data_returns)
  then obtain w1 where c: "create_request_data sha256 (base_data b) book_id chapter_id last_time w
      = (Inr (length (heap w)), w1)"
    by (cases "create_request_data sha256 (base_data b) book_id chapter_id last_time w") simp
  have w1: "net w1 = net w" "length (heap w) < length (heap w1)"
      "heap w1 ! base_data b = heap w ! base_data b"
    using create_request_data_world [OF live c] by simp_all
  have ct: "map_of (heap w1 ! length (heap w)) (py ''ct'') = Some (PInt (int_of_float (now w)))"
    using create_request_data_ct [OF live c] .
  have rb: "read_book (circuit_breaker b) (heap w1 ! length (heap w)) w1 =
           (Inr (JDict [(py ''succ'', JInt 1), (py ''synckey'', JInt 123)]),
            (circuit_breaker b)\<lparr>failure_count := 0\<rparr>, w1\<lparr>trace := trace w1 @ [Request ReadUrl]\<rparr>)"
    using read_book_accepted [of w1 "circuit_breaker b"] w1(1) net st by simp
  have "read_once sha256 b book_id chapter_id last_time w
        = ((True, int_of_float (now w), None),
           b\<lparr>circuit_breaker := (circuit_breaker b)\<lparr>failure_count := 0\<rparr>\<rparr>,
           w1\<lparr>trace := trace w1 @ [Request ReadUrl]\<rparr>)"
    by (simp add: read_once_def c rb ct accepted_body_valid)
  moreover have "ready (b\<lparr>circuit_breaker := (circuit_breaker b)\<lparr>failure_count := 0\<rparr>\<rparr>)
           (w1\<lparr>trace := trace w1 @ [Request ReadUrl]\<rparr>)"
    using w1 net st live ok by (simp add: ready_def)
  ultimately show ?thesis by simp
qed

lemma ids_ok: "\<forall>x \<in> set book_ids. text_ok x" "\<forall>x \<in> set chapter_ids. text_ok x"
  by (simp_all add: book_ids_def chapter_ids_def text_ok_def py_def)

lemma ready_draws [simp]: "ready b (w\<lparr>draws := d\<rparr>) = ready b w"
  by (simp add: ready_def)

lemma ready_sleep [simp]: "ready b (sleep d w) = ready b w"
  by (simp add: ready_def sleep_def)

lemma pick_and_read_ready:
  assumes "ready b w" and sha: "\<And>s. text_ok (sha256 s)"
  shows "\<exists>b1 w1. pick_and_read sha256 last_time b w = (Inr (True, int_of_float (now w), None), b1, w1)
            \<and> ready b1 w1 \<and> read_num b1 = read_num b
            \<and> notification_enabled b1 = notification_enabled b"
proof -
  obtain book w1 where b: "random_choice book_ids w = (Inr book, w1)" "book \<in> set book_ids"
      "w1 = w\<lparr>draws := Suc (draws w)\<rparr>"
    using random_choice_returns [of book_ids w] by (auto simp: book_ids_def)
  obtain chap w2 where c: "random_choice chapter_ids w1 = (Inr chap, w2)" "chap \<in> set chapter_ids"
      "w2 = w1\<lparr>draws := Suc (draws w1)\<rparr>"
    using random_choice_returns [of chapter_ids w1] by (auto simp: chapter_ids_def)
  have r: "ready b w2" and n: "now w2 = now w"
    using assms(1) b(3) c(3) by simp_all
  have "text_ok book" "text_ok chap"
    using b(2) c(2) ids_ok by blast+
  then obtain b1 w3 where
    "read_once sha256 b book chap last_time w2 = ((True, int_of_float (now w2), None), b1, w3)"
    "ready b1 w3" "read_num b1 = read_num b" "notification_enabled b1 = notification_enabled b"
    using read_once_ready [where b = b and w = w2 and book_id = book and chapter_id = chap
        and last_time = last_time and ?sha256.0 = sha256] r sha by blast
  then show ?thesis
    by (simp add: pick_and_read_def b(1) c(1) n)
qed

lemma attempt_results_ready:
  assumes sha: "\<And>s. text_ok (sha256 s)"
  shows "ready b w \<Longrightarrow> list_all fst (attempt_results sha256 stop attempt last_time b w)"
proof (induction "nat (stop - attempt)" arbitrary: attempt last_time b w)
  case 0
  then have "\<not> attempt < stop" by simp
  then show ?case by (simp add: attempt_results_done)
next
  case (Suc n)
  then have lt: "attempt < stop" by simp
  obtain b1 w1 where
    p: "pick_and_read sha256 last_time b w = (Inr (True, int_of_float (now w), None), b1, w1)"
    and r: "ready b1 w1"
    using pick_and_read_ready [OF Suc.prems, of sha256 last_time] sha by blast
  have n: "n = nat (stop - (attempt + 1))" using Suc.hyps(2) by simp
  have "list_all fst (attempt_results sha256 stop (attempt + 1) (int_of_float (now w)) b1
          (sleep 30 w1))"
    using Suc.hyps(1) [OF n] r by simp
  then show ?case
    unfolding attempt_results_step [OF lt p] by simp
qed

lemma find_skey_accepted:
  "find_skey (split 59 (py ''wr_vid=12; Path=/, wr_skey=AbCdEfGhIJ; Path=/'')) = Some (py ''AbCdEfGh'')"
  by code_simp

lemma refresh_cookie_accepted:
  assumes "net w = (\<lambda>n. Responded accepted)"
  shows "refresh_cookie b w =
           (True, b\<lparr>cookies := AList.update (py ''wr_skey'') (py ''AbCdEfGh'') (cookies b)\<rparr>,
            w\<lparr>trace := trace w @ [Request RenewUrl]\<rparr>)"
proof -
  have "renew_cookie w = (Inr (Some (py ''AbCdEfGh'')), w\<lparr>trace := trace w @ [Request RenewUrl]\<rparr>)"
    using assms
    by (simp add: renew_cookie_def session_post_def accepted_def raise_for_status_def
          find_skey_accepted)
  then show ?thesis
    by (simp add: refresh_cookie_def py_def)
qed

section \<open>Properties of \<open>start_reading\<close>\<close>

lemma refresh_cookie_read_num:
  "read_num (fst (snd (refresh_cookie b w))) = read_num b"
  by (simp add: refresh_cookie_def split: prod.splits sum.splits option.splits)

lemma read_once_read_num:
  "read_num (fst (snd (read_once sha256 b book_id chapter_id last_time w))) = read_num b"
proof -
  have r: "read_num b2 = read_num b1" if "refresh_cookie b1 w1 = (ok, b2, w2)" for b1 w1 ok b2 w2
    using refresh_cookie_read_num [of b1 w1] that by simp
  show ?thesis
    by (auto simp: read_once_def Let_def r
        split: prod.splits sum.splits option.splits pyval.splits bool.splits)
qed

lemma pick_and_read_read_num:
  "read_num (fst (snd (pick_and_read sha256 last_time b w))) = read_num b"
proof -
  have r: "read_num b1 = read_num b0"
    if "read_once sha256 b0 bk ch last_time w0 = (x, b1, w1)" for b0 bk ch w0 x b1 w1
    using read_once_read_num [of sha256 b0 bk ch last_time w0] that by simp
  show ?thesis
    by (auto simp: pick_and_read_def r split: prod.splits sum.splits)
qed

lemma reading_loop_read_num:
  "read_num (fst (snd (reading_loop sha256 stop attempt count last_time b w))) = read_num b"
proof (induction "nat (stop - attempt)" arbitrary: attempt count last_time b w)
  case 0
  then have "\<not> attempt < stop" by simp
  then show ?case by (simp add: reading_loop_done)
next
  case (Suc n)
  then have lt: "attempt < stop" by simp
  obtain ok t err b1 w1 where p: "pick_and_read sha256 last_time b w = (Inr (ok, t, err), b1, w1)"
    using pick_and_read_returns [of sha256 last_time b w] by (metis prod_cases3)
  have b1: "read_num b1 = read_num b"
    using pick_and_read_read_num [of sha256 last_time b w] p by simp
  have n: "n = nat (stop - (attempt + 1))" using Suc.hyps(2) by simp
  show ?case
    unfolding reading_loop_step [OF lt p] using Suc.hyps(1) [OF n] b1 by simp
qed

lemma start_reading_renewal_failed:
  assumes "\<not> fst (refresh_cookie b w)"
  shows "fst (start_reading sha256 b w) = Inl AuthError"
    and "run_results sha256 b w = []"
  using assms
  by (auto simp: start_reading_def run_results_def split: prod.splits bool.splits)

lemma start_reading_renewed:
  assumes "fst (refresh_cookie b w)" and "read_num b \<noteq> 0"
  shows "fst (start_reading sha256 b w) =
           Inr \<lparr>success_count = int (length (filter fst (run_results sha256 b w))),
                total_attempts = read_num b,
                reading_minutes = of_int (int (length (filter fst (run_results sha256 b w)))) * (1 / 2),
                success_rate = of_int (int (length (filter fst (run_results sha256 b w))))
                                 / of_int (read_num b) * 100\<rparr>"
    and "length (run_results sha256 b w) = nat (read_num b)"
proof -
  obtain b1 w1 where rc: "refresh_cookie b w = (True, b1, w1)"
    using assms(1) by (cases "refresh_cookie b w") auto
  have n1: "read_num b1 = read_num b"
    using refresh_cookie_read_num [of b w] rc by simp
  let ?t0 = "int_of_float (now w1) - 30"
  let ?rs = "attempt_results sha256 (read_num b1 + 1) 1 ?t0 b1 w1"
  obtain b2 w2 where
    l: "reading_loop sha256 (read_num b1 + 1) 1 0 ?t0 b1 w1 =
          (Inr (0 + int (length (filter fst ?rs)), last_accepted ?t0 ?rs), b2, w2)"
    and len: "length ?rs = nat (read_num b1 + 1 - 1)"
    using reading_loop_results [of sha256 "read_num b1 + 1" 1 0 ?t0 b1 w1] by blast
  have n2: "read_num b2 = read_num b"
    using reading_loop_read_num [of sha256 "read_num b1 + 1" 1 0 ?t0 b1 w1] l n1
    by simp
  have rr: "run_results sha256 b w = ?rs"
    by (simp add: run_results_def rc)
  show "length (run_results sha256 b w) = nat (read_num b)"
    using len n1 by (simp add: rr)
  show "fst (start_reading sha256 b w) =
           Inr \<lparr>success_count = int (length (filter fst (run_results sha256 b w))),
                total_attempts = read_num b,
                reading_minutes = of_int (int (length (filter fst (run_results sha256 b w)))) * (1 / 2),
                success_rate = of_int (int (length (filter fst (run_results sha256 b w))))
                                 / of_int (read_num b) * 100\<rparr>"
    using assms(2) n2 by (simp add: start_reading_def rc l rr Let_def)
qed

lemma validate_read_num_range:
  "validate_read_num v = Inr n \<Longrightarrow> 1 \<le> n \<and> n \<le> 1000"
  by (auto simp: validate_read_num_def split: config_value.splits if_splits)

lemma ready_after_renewal:
  "ready (bot0\<lparr>cookies := c\<rparr>) (world_accepting\<lparr>trace := t\<rparr>)"
  by (simp add: ready_def bot0_def world_accepting_def world0_def manager_circuit_breaker_def
        CircuitBreaker_init_def dict_ok_def base_data_template_def text_ok_def py_def)

lemma sample_digest_ok: "text_ok (sample_digest s)"
  by (simp add: sample_digest_def text_ok_def py_def)

lemma run_results_accepting:
  "list_all fst (run_results sample_digest bot0 world_accepting)"
proof -
  have n: "net world_accepting = (\<lambda>n. Responded accepted)"
    by (simp add: world_accepting_def)
  show ?thesis
    unfolding run_results_def refresh_cookie_accepted [OF n]
    by (simp add: attempt_results_ready [OF sample_digest_ok ready_after_renewal])
qed

lemma refresh_cookie_accepting: "fst (refresh_cookie bot0 world_accepting)"
  by (simp add: refresh_cookie_accepted world_accepting_def)

text \<open>C6. With a validated number of attempts \<open>N\<close> and a first renewal that succeeds,
  \<open>start_reading\<close> makes \<open>N\<close> attempts and returns \<open>success_count = S\<close>, the number of
  attempts that succeeded, \<open>total_attempts = N\<close>, \<open>reading_minutes = S * 0.5\<close> and
  \<open>success_rate = S / N * 100\<close>; when \<open>N = 10\<close> and every attempt succeeds these are
  10, 5 and 100.\<close>

theorem start_reading_statistics:
  assumes "validate_read_num v = Inr (read_num b)" and "fst (refresh_cookie b w)"
  shows "\<exists>r. fst (start_reading sha256 b w) = Inr r
      \<and> length (run_results sha256 b w) = nat (read_num b)
      \<and> success_count r = int (length (filter fst (run_results sha256 b w)))
      \<and> total_attempts r = read_num b
      \<and> reading_minutes r = of_int (success_count r) * (1 / 2)
      \<and> success_rate r = of_int (success_count r) / of_int (read_num b) * 100
      \<and> (read_num b = 10 \<and> list_all fst (run_results sha256 b w) \<longrightarrow>
           success_count r = 10 \<and> reading_minutes r = 5 \<and> success_rate r = 100)"
proof -
  have n: "read_num b \<noteq> 0"
    using validate_read_num_range [OF assms(1)] by simp
  let ?S = "int (length (filter fst (run_results sha256 b w)))"
  let ?r = "\<lparr>success_count = ?S, total_attempts = read_num b,
             reading_minutes = of_int ?S * (1 / 2),
             success_rate = of_int ?S / of_int (read_num b) * 100\<rparr>"
  have r: "fst (start_reading sha256 b w) = Inr ?r"
    and len: "length (run_results sha256 b w) = nat (read_num b)"
    using start_reading_renewed [OF assms(2) n] by simp_all
  have all: "?S = 10" if "read_num b = 10" "list_all fst (run_results sha256 b w)"
  proof -
    have "filter fst (run_results sha256 b w) = run_results sha256 b w"
      using that(2) by (simp add: list_all_iff)
    then show ?thesis using len that(1) by simp
  qed
  show ?thesis
    by (rule exI [of _ ?r]) (use r len all in auto)
qed

theorem start_reading_statistics_witness:
  "fst (start_reading sample_digest bot0 world_accepting) =
     Inr \<lparr>success_count = 10, total_attempts = 10, reading_minutes = 5, success_rate = 100\<rparr>"
proof -
  have v: "validate_read_num (IntLike 10) = Inr (read_num bot0)"
    by (simp add: validate_read_num_def bot0_def)
  have n: "read_num bot0 = 10"
    by (simp add: bot0_def)
  obtain r where r: "fst (start_reading sample_digest bot0 world_accepting) = Inr r"
    and f: "total_attempts r = read_num bot0"
      "read_num bot0 = 10 \<and> list_all fst (run_results sample_digest bot0 world_accepting) \<longrightarrow>
           success_count r = 10 \<and> reading_minutes r = 5 \<and> success_rate r = 100"
    using start_reading_statistics [OF v refresh_cookie_accepting, of sample_digest] by blast
  have "success_count r = 10 \<and> reading_minutes r = 5 \<and> success_rate r = 100"
    using f(2) n run_results_accepting by blast
  then have "r = \<lparr>success_count = 10, total_attempts = 10, reading_minutes = 5, success_rate = 100\<rparr>"
    using f(1) n by (cases r) simp
  then show ?thesis using r by simp
qed

section \<open>What a failed attempt does to the run\<close>

lemma pick_and_read_failure:
  assumes "pick_and_read sha256 last_time b w = (Inr (False, t, err), b1, w1)"
  shows "t = last_time \<and> err \<noteq> None"
proof -
  obtain book wa where bk: "random_choice book_ids w = (Inr book, wa)"
    using random_choice_returns [of book_ids w] by (auto simp: book_ids_def)
  obtain chap wb where ch: "random_choice chapter_ids wa = (Inr chap, wb)"
    using random_choice_returns [of chapter_ids wa] by (auto simp: chapter_ids_def)
  have "fst (read_once sha256 b book chap last_time wb) = (False, t, err)"
    using assms by (simp add: pick_and_read_def bk ch split: prod.splits)
  then show ?thesis by (rule read_once_failure)
qed

lemma pick_and_read_success:
  assumes "pick_and_read sha256 last_time b w = (Inr (True, t, err), b1, w1)"
    and "base_data b < length (heap w)"
  shows "t = int_of_float (now w) \<and> err = None"
proof -
  obtain book wa where bk: "random_choice book_ids w = (Inr book, wa)"
      "wa = w\<lparr>draws := Suc (draws w)\<rparr>"
    using random_choice_returns [of book_ids w] by (auto simp: book_ids_def)
  obtain chap wb where ch: "random_choice chapter_ids wa = (Inr chap, wb)"
      "wb = wa\<lparr>draws := Suc (draws wa)\<rparr>"
    using random_choice_returns [of chapter_ids wa] by (auto simp: chapter_ids_def)
  have "fst (read_once sha256 b book chap last_time wb) = (True, t, err)"
    using assms(1) by (simp add: pick_and_read_def bk(1) ch(1) split: prod.splits)
  moreover have "base_data b < length (heap wb)" "now wb = now w"
    using assms(2) bk(2) ch(2) by simp_all
  ultimately show ?thesis
    using read_once_success [of sha256 b book chap last_time wb t err] by simp
qed

lemma attempt_results_recorded:
  "list_all (\<lambda>r. fst r \<or> snd (snd r) \<noteq> None) (attempt_results sha256 stop attempt last_time b w)"
proof (induction "nat (stop - attempt)" arbitrary: attempt last_time b w)
  case 0
  then have "\<not> attempt < stop" by simp
  then show ?case by (simp add: attempt_results_done)
next
  case (Suc n)
  then have lt: "attempt < stop" by simp
  obtain ok t err b1 w1 where p: "pick_and_read sha256 last_time b w = (Inr (ok, t, err), b1, w1)"
    using pick_and_read_returns [of sha256 last_time b w] by (metis prod_cases3)
  have n: "n = nat (stop - (attempt + 1))" using Suc.hyps(2) by simp
  have "ok \<or> err \<noteq> None"
    using pick_and_read_failure [of sha256 last_time b w t err b1 w1] p by (cases ok) simp_all
  then show ?case
    unfolding attempt_results_step [OF lt p] using Suc.hyps(1) [OF n] by simp
qed

text \<open>C9. With a validated number of attempts, \<open>start_reading\<close> raises exactly when
  the renewal before the loop fails, and then it raises \<open>AuthError\<close>. Once that renewal
  has succeeded the loop makes all \<open>N\<close> attempts, every attempt that did not succeed is
  recorded with its reason, and \<open>start_reading\<close> returns the statistics.\<close>

theorem start_reading_raises_only_on_initial_renewal:
  assumes "validate_read_num v = Inr (read_num b)"
  shows "(isl (fst (start_reading sha256 b w)) \<longleftrightarrow> \<not> fst (refresh_cookie b w))
     \<and> (\<not> fst (refresh_cookie b w) \<longrightarrow> fst (start_reading sha256 b w) = Inl AuthError)
     \<and> (fst (refresh_cookie b w) \<longrightarrow>
          length (run_results sha256 b w) = nat (read_num b)
          \<and> list_all (\<lambda>r. fst r \<or> snd (snd r) \<noteq> None) (run_results sha256 b w)
          \<and> (\<exists>r. fst (start_reading sha256 b w) = Inr r \<and> total_attempts r = read_num b))"
proof -
  have n: "read_num b \<noteq> 0"
    using validate_read_num_range [OF assms] by simp
  have rec: "list_all (\<lambda>r. fst r \<or> snd (snd r) \<noteq> None) (run_results sha256 b w)"
  proof (cases "refresh_cookie b w")
    case (fields ok b1 w1)
    show ?thesis
      unfolding run_results_def fields
      using attempt_results_recorded [of sha256 "read_num b1 + 1" 1 "int_of_float (now w1) - 30" b1 w1]
      by (cases ok) simp_all
  qed
  show ?thesis
  proof (cases "fst (refresh_cookie b w)")
    case False
    then show ?thesis
      using start_reading_renewal_failed(1) [of b w sha256] by simp
  next
    case True
    then show ?thesis
      using start_reading_renewed [OF True n, of sha256] rec by simp
  qed
qed

theorem start_reading_raises_only_on_initial_renewal_witness:
  "fst (start_reading sample_digest bot0 world0) = Inl AuthError
   \<and> \<not> isl (fst (start_reading sample_digest bot0 world_accepting))
   \<and> length (run_results sample_digest bot0 world_accepting) = 10"
proof -
  have v: "validate_read_num (IntLike 10) = Inr (read_num bot0)"
    by (simp add: validate_read_num_def bot0_def)
  have n: "read_num bot0 = 10"
    by (simp add: bot0_def)
  have failed: "\<not> fst (refresh_cookie bot0 world0)"
    by (simp add: refresh_cookie_def renew_cookie_def session_post_def world0_def)
  note T = start_reading_raises_only_on_initial_renewal [OF v, of sample_digest]
  have a: "fst (start_reading sample_digest bot0 world0) = Inl AuthError"
    using T [of world0] failed by blast
  have b: "\<not> isl (fst (start_reading sample_digest bot0 world_accepting))"
    using T [of world_accepting] refresh_cookie_accepting by blast
  have c: "length (run_results sample_digest bot0 world_accepting) = 10"
    using T [of world_accepting] refresh_cookie_accepting n by simp
  show ?thesis using a b c by (intro conjI)
qed

section \<open>The time carried from one attempt to the next\<close>






end
